theory Spec2Isabelle
  imports Complex_Main "HOL-Library.Sublist"
begin

section \<open>Data model of \<^verbatim>\<open>prepare_data.py\<close>\<close>

text \<open>
  A Python \<^verbatim>\<open>str\<close> is a sequence of Unicode code points (numbers below 1114112, the
  surrogates included); it is modelled as the list of its code points. \<open>str\<close> turns an
  ASCII literal into such a sequence.
\<close>

type_synonym pystr = "nat list"

definition str :: "string \<Rightarrow> pystr" where
  "str s = map of_char s"

text \<open>
  A naive \<^verbatim>\<open>datetime\<close> has microsecond resolution; it is modelled as the number of
  microseconds since \<^verbatim>\<open>datetime.min\<close> (0001-01-01T00:00:00). A \<^verbatim>\<open>timedelta\<close> is kept
  by Python in the normalised form \<^verbatim>\<open>(days, seconds, microseconds)\<close> with
  \<open>0 \<le> seconds < 86400\<close> and \<open>0 \<le> microseconds < 1000000\<close>; \<^verbatim>\<open>days\<close> carries the sign.
\<close>

type_synonym datetime = int

record timedelta =
  days :: int
  seconds :: int
  microseconds :: int

definition timedelta_of_microseconds :: "int \<Rightarrow> timedelta" where
  "timedelta_of_microseconds us =
     \<lparr> days = us div 86400000000,
       seconds = (us mod 86400000000) div 1000000,
       microseconds = us mod 1000000 \<rparr>"

text \<open>\<^verbatim>\<open>a - b\<close> on two datetimes.\<close>

definition datetime_sub :: "datetime \<Rightarrow> datetime \<Rightarrow> timedelta" where
  "datetime_sub a b = timedelta_of_microseconds (a - b)"

text \<open>\<^verbatim>\<open>timedelta.total_seconds() / 60\<close>: the true elapsed time in minutes.\<close>

definition total_minutes :: "timedelta \<Rightarrow> rat" where
  "total_minutes td =
     (of_int (days td) * 86400 + of_int (seconds td) + of_int (microseconds td) / 1000000) / 60"

text \<open>\<^verbatim>\<open>class Message(BaseModel)\<close>.\<close>

record message =
  date :: datetime
  author :: pystr
  "text" :: pystr

text \<open>
  \<^verbatim>\<open>combine_consecutive_messages\<close> rewrites the \<^verbatim>\<open>text\<close> attribute of \<^verbatim>\<open>Message\<close> objects in
  place, and the lists it receives and returns hold references to those objects. So a
  list of messages is a list of references, and the objects live in a heap.
\<close>

type_synonym ref = nat
type_synonym heap = "ref \<Rightarrow> message"

datatype error =
  IndexError | KeyError | TypeError | ValueError | OverflowError | StopIteration
  | ValidationError | UnicodeEncodeError

section \<open>SessionSegmenter: \<^verbatim>\<open>create_sessions\<close>\<close>

text \<open>
  The test \<^verbatim>\<open>(msg.date - current_session[-1].date).seconds / 60 < threshold\<close>. The quotient
  is a Python float, compared with the integer \<^verbatim>\<open>threshold\<close>. \<^verbatim>\<open>.seconds\<close> lies in
  \<open>0..86399\<close>, the float quotient is the correctly rounded value of the exact quotient, and
  Python compares a float with an int exactly; rounding is monotone and keeps integers of
  this size fixed, so the comparison has the value of the exact rational one written here.
\<close>

definition gap_below :: "heap \<Rightarrow> ref \<Rightarrow> ref \<Rightarrow> int \<Rightarrow> bool" where
  "gap_below h msg prev threshold \<longleftrightarrow>
     (of_int (seconds (datetime_sub (date (h msg)) (date (h prev)))) / 60 :: rat)
       < of_int threshold"

text \<open>
  The \<^verbatim>\<open>for msg in messages\<close> loop; the state is \<^verbatim>\<open>(sessions, current_session)\<close>.
  \<^verbatim>\<open>current_session[-1]\<close> is read only when \<^verbatim>\<open>current_session\<close> is not empty.
\<close>

fun create_sessions_loop ::
  "heap \<Rightarrow> int \<Rightarrow> ref list \<Rightarrow> ref list list \<Rightarrow> ref list \<Rightarrow> ref list list \<times> ref list" where
  "create_sessions_loop h threshold [] sessions current_session = (sessions, current_session)"
| "create_sessions_loop h threshold (msg # rest) sessions current_session =
     (if current_session = [] \<or> gap_below h msg (last current_session) threshold
      then create_sessions_loop h threshold rest sessions (current_session @ [msg])
      else create_sessions_loop h threshold rest (sessions @ [current_session]) [msg])"

definition create_sessions :: "heap \<Rightarrow> ref list \<Rightarrow> int \<Rightarrow> ref list list" where
  "create_sessions h messages threshold =
     (case create_sessions_loop h threshold messages [] [] of
        (sessions, current_session) \<Rightarrow>
          if current_session \<noteq> [] then sessions @ [current_session] else sessions)"

section \<open>MessageMerger: \<^verbatim>\<open>combine_consecutive_messages\<close>\<close>

text \<open>
  \<^verbatim>\<open>str.lstrip()\<close> without argument drops the leading code points for which
  \<^verbatim>\<open>str.isspace\<close> holds.
\<close>

definition isspace :: "nat \<Rightarrow> bool" where
  "isspace c \<longleftrightarrow>
     (9 \<le> c \<and> c \<le> 13) \<or> (28 \<le> c \<and> c \<le> 32) \<or> c = 133 \<or> c = 160 \<or> c = 5760
     \<or> (8192 \<le> c \<and> c \<le> 8202) \<or> c = 8232 \<or> c = 8233 \<or> c = 8239 \<or> c = 8287
     \<or> c = 12288"

definition lstrip :: "pystr \<Rightarrow> pystr" where
  "lstrip s = dropWhile isspace s"

text \<open>\<^verbatim>\<open>current_message.text = delimiter.lstrip() + current_message.text\<close>\<close>

definition prefix_text :: "pystr \<Rightarrow> heap \<Rightarrow> ref \<Rightarrow> heap" where
  "prefix_text delimiter h m = h(m := (h m)\<lparr>text := lstrip delimiter @ text (h m)\<rparr>)"

text \<open>\<^verbatim>\<open>current_message.text += delimiter + msg.text\<close>\<close>

definition append_text :: "pystr \<Rightarrow> heap \<Rightarrow> ref \<Rightarrow> ref \<Rightarrow> heap" where
  "append_text delimiter h current_message msg =
     h(current_message :=
         (h current_message)\<lparr>text := text (h current_message) @ delimiter @ text (h msg)\<rparr>)"

text \<open>
  The inner loop \<^verbatim>\<open>for msg in session[1:]\<close>; the state is the heap,
  \<^verbatim>\<open>combined_session\<close> and \<^verbatim>\<open>current_message\<close>.
\<close>

fun combine_session_loop ::
  "pystr \<Rightarrow> heap \<Rightarrow> ref list \<Rightarrow> ref \<Rightarrow> ref list \<Rightarrow> heap \<times> ref list \<times> ref" where
  "combine_session_loop delimiter h combined_session current_message [] =
     (h, combined_session, current_message)"
| "combine_session_loop delimiter h combined_session current_message (msg # rest) =
     (if author (h msg) = author (h current_message)
      then combine_session_loop delimiter
             (append_text delimiter h current_message msg) combined_session current_message rest
      else combine_session_loop delimiter
             (prefix_text delimiter h msg) (combined_session @ [current_message]) msg rest)"

text \<open>
  The body of the outer loop for one session. \<^verbatim>\<open>session[0]\<close> raises \<^verbatim>\<open>IndexError\<close> on an
  empty session.
\<close>

fun combine_session :: "pystr \<Rightarrow> heap \<Rightarrow> ref list \<Rightarrow> error + heap \<times> ref list" where
  "combine_session delimiter h [] = Inl IndexError"
| "combine_session delimiter h (first # rest) =
     (case combine_session_loop delimiter (prefix_text delimiter h first) [] first rest of
        (h', combined_session, current_message) \<Rightarrow>
          Inr (h', combined_session @ [current_message]))"

text \<open>The outer loop \<^verbatim>\<open>for session in sessions\<close>; the state is the heap and \<^verbatim>\<open>combined_sessions\<close>.\<close>

fun combine_sessions_loop ::
  "pystr \<Rightarrow> heap \<Rightarrow> ref list list \<Rightarrow> ref list list \<Rightarrow> error + heap \<times> ref list list" where
  "combine_sessions_loop delimiter h combined_sessions [] = Inr (h, combined_sessions)"
| "combine_sessions_loop delimiter h combined_sessions (session # rest) =
     (case combine_session delimiter h session of
        Inl e \<Rightarrow> Inl e
      | Inr (h', combined_session) \<Rightarrow>
          combine_sessions_loop delimiter h' (combined_sessions @ [combined_session]) rest)"

definition combine_consecutive_messages ::
  "heap \<Rightarrow> ref list list \<Rightarrow> pystr \<Rightarrow> error + heap \<times> ref list list" where
  "combine_consecutive_messages h sessions delimiter =
     combine_sessions_loop delimiter h [] sessions"

text \<open>
  The positions of a session that start a merge-run, in the words of the specification: the
  first message, and every message whose author differs from the author of the message
  before it.
\<close>

definition run_starts :: "heap \<Rightarrow> ref list \<Rightarrow> ref list" where
  "run_starts h session =
     map (\<lambda>i. session ! i)
       (filter (\<lambda>i. i = 0 \<or> author (h (session ! i)) \<noteq> author (h (session ! (i - 1))))
          [0..<length session])"

text \<open>
  An auxiliary function for the proofs: the messages of \<open>ms\<close> that start a merge-run when
  \<open>ms\<close> follows a message \<open>prev\<close>.
\<close>

fun starts_after :: "heap \<Rightarrow> ref \<Rightarrow> ref list \<Rightarrow> ref list" where
  "starts_after h prev [] = []"
| "starts_after h prev (m # ms) =
     (if author (h m) = author (h prev) then starts_after h prev ms
      else m # starts_after h m ms)"

section \<open>The pipeline: \<^verbatim>\<open>transform_chats\<close>\<close>

text \<open>\<^verbatim>\<open>class Chat(BaseModel)\<close>; \<^verbatim>\<open>type\<close> is one of three literals.\<close>

datatype chat_type = personal_chat | private_group | private_supergroup

record chat =
  name :: pystr
  type :: chat_type
  messages :: "message list"
  sessions :: "message list list"

text \<open>
  \<^verbatim>\<open>load_chats\<close> builds every \<^verbatim>\<open>Message\<close> of a chat as an object of its own, so the entries
  of \<^verbatim>\<open>chat.messages\<close> are distinct objects that no other chat shares. The pipeline
  therefore runs each chat on a heap that holds its messages at the references
  \<open>0, 1, \<dots>\<close>, and reads the values back from the heap that the merger leaves.
\<close>

definition heap_of :: "message list \<Rightarrow> heap" where
  "heap_of ms r = (if r < length ms then ms ! r else \<lparr>date = 0, author = [], text = []\<rparr>)"

text \<open>
  \<^verbatim>\<open>timedelta(days=n)\<close> raises \<^verbatim>\<open>OverflowError\<close> beyond 999999999 days; the result is given in
  microseconds. \<^verbatim>\<open>datetime - timedelta\<close> raises \<^verbatim>\<open>OverflowError\<close> when the result leaves
  \<^verbatim>\<open>datetime.min .. datetime.max\<close> (years 1 to 9999).
\<close>

definition timedelta_days :: "int \<Rightarrow> error + int" where
  "timedelta_days n =
     (if \<bar>n\<bar> \<le> 999999999 then Inr (n * 86400000000) else Inl OverflowError)"

definition datetime_max :: datetime where
  "datetime_max = 3652059 * 86400000000 - 1"

definition datetime_minus :: "datetime \<Rightarrow> int \<Rightarrow> error + datetime" where
  "datetime_minus a us =
     (if 0 \<le> a - us \<and> a - us \<le> datetime_max then Inr (a - us) else Inl OverflowError)"

text \<open>\<^verbatim>\<open>cutoff_date = datetime.now() - timedelta(days=last_x_months * 30)\<close>\<close>

definition cutoff_date :: "datetime \<Rightarrow> int \<Rightarrow> error + datetime" where
  "cutoff_date now last_x_months =
     (case timedelta_days (last_x_months * 30) of
        Inl e \<Rightarrow> Inl e
      | Inr us \<Rightarrow> datetime_minus now us)"

text \<open>
  The built-in \<^verbatim>\<open>setattr(chat, "messages", filtered_messages)\<close> stores the attribute and
  returns \<^verbatim>\<open>None\<close>, which is false as a condition.
\<close>

datatype none = PyNone

fun truthy_none :: "none \<Rightarrow> bool" where
  "truthy_none PyNone = False"

definition setattr_messages :: "chat \<Rightarrow> message list \<Rightarrow> chat \<times> none" where
  "setattr_messages c ms = (c\<lparr>messages := ms\<rparr>, PyNone)"

text \<open>
  The DateFilter of \<^verbatim>\<open>src/prepare_data.py\<close>, lines 79 to 88: a comprehension over \<^verbatim>\<open>chats\<close>
  whose condition is
  \<^verbatim>\<open>(filtered_messages := [...]) and setattr(chat, "messages", filtered_messages)\<close>.
  \<^verbatim>\<open>and\<close> yields its left operand when that is false (an empty list), and its right
  operand otherwise.
\<close>

fun date_filter :: "datetime \<Rightarrow> chat list \<Rightarrow> chat list" where
  "date_filter cutoff [] = []"
| "date_filter cutoff (c # rest) =
     (let filtered_messages = filter (\<lambda>msg. cutoff < date msg) (messages c) in
      if filtered_messages \<noteq> []
      then (case setattr_messages c filtered_messages of
              (c', r) \<Rightarrow>
                if truthy_none r then c' # date_filter cutoff rest
                else date_filter cutoff rest)
      else date_filter cutoff rest)"

text \<open>
  The DateFilter of \<^verbatim>\<open>src/src/prepare_data.py\<close>, lines 93 to 99: every chat gets its
  filtered messages, then the chats without messages are dropped. That file reads
  \<^verbatim>\<open>datetime.now()\<close> anew for every message; \<open>cutoffs\<close> gives the cutoff in force at the
  \<open>k\<close>-th comparison of the run.
\<close>

fun filter_messages_from :: "(nat \<Rightarrow> datetime) \<Rightarrow> nat \<Rightarrow> message list \<Rightarrow> message list" where
  "filter_messages_from cutoffs k [] = []"
| "filter_messages_from cutoffs k (msg # rest) =
     (if cutoffs k < date msg then msg # filter_messages_from cutoffs (Suc k) rest
      else filter_messages_from cutoffs (Suc k) rest)"

fun set_filtered_messages :: "(nat \<Rightarrow> datetime) \<Rightarrow> nat \<Rightarrow> chat list \<Rightarrow> chat list" where
  "set_filtered_messages cutoffs k [] = []"
| "set_filtered_messages cutoffs k (c # rest) =
     c\<lparr>messages := filter_messages_from cutoffs k (messages c)\<rparr>
       # set_filtered_messages cutoffs (k + length (messages c)) rest"

definition date_filter_two_steps :: "(nat \<Rightarrow> datetime) \<Rightarrow> chat list \<Rightarrow> chat list" where
  "date_filter_two_steps cutoffs chats =
     filter (\<lambda>c. messages c \<noteq> []) (set_filtered_messages cutoffs 0 chats)"

text \<open>
  SessionFilter: \<^verbatim>\<open>any(msg.author == target_name for msg in session[1:])\<close>. \<^verbatim>\<open>target_name\<close> is
  a \<^verbatim>\<open>str\<close> or \<^verbatim>\<open>None\<close>, and no author equals \<^verbatim>\<open>None\<close>.
\<close>

definition has_target :: "heap \<Rightarrow> pystr option \<Rightarrow> ref list \<Rightarrow> bool" where
  "has_target h target_name session \<longleftrightarrow>
     list_ex (\<lambda>msg. Some (author (h msg)) = target_name) (drop 1 session)"

definition session_filter :: "heap \<Rightarrow> pystr option \<Rightarrow> ref list list \<Rightarrow> ref list list" where
  "session_filter h target_name chat_sessions =
     filter (has_target h target_name) chat_sessions"

text \<open>
  The body of \<^verbatim>\<open>for chat in chats\<close>, lines 91 to 100, and the loop itself; an exception
  ends the loop.
\<close>

definition transform_chat :: "pystr option \<Rightarrow> int \<Rightarrow> pystr \<Rightarrow> chat \<Rightarrow> error + chat" where
  "transform_chat target_name threshold delimiter c =
     (let h = heap_of (messages c);
          refs = [0..<length (messages c)]
      in case combine_consecutive_messages h (create_sessions h refs threshold) delimiter of
           Inl e \<Rightarrow> Inl e
         | Inr (h', combined) \<Rightarrow>
             Inr (c\<lparr>messages := map h' refs,
                    sessions := map (map h') (session_filter h' target_name combined)\<rparr>))"

fun transform_chats_loop ::
  "pystr option \<Rightarrow> int \<Rightarrow> pystr \<Rightarrow> chat list \<Rightarrow> error + chat list" where
  "transform_chats_loop target_name threshold delimiter [] = Inr []"
| "transform_chats_loop target_name threshold delimiter (c # rest) =
     (case transform_chat target_name threshold delimiter c of
        Inl e \<Rightarrow> Inl e
      | Inr c' \<Rightarrow>
          (case transform_chats_loop target_name threshold delimiter rest of
             Inl e \<Rightarrow> Inl e
           | Inr rest' \<Rightarrow> Inr (c' # rest')))"

text \<open>\<^verbatim>\<open>all_sessions = [session for chat in chats for session in chat.sessions]\<close>\<close>

definition all_sessions :: "chat list \<Rightarrow> message list list" where
  "all_sessions chats = concat (map sessions chats)"

text \<open>\<^verbatim>\<open>sep.join(parts)\<close>\<close>

fun join :: "pystr \<Rightarrow> pystr list \<Rightarrow> pystr" where
  "join sep [] = []"
| "join sep [x] = x"
| "join sep (x # y # ys) = x @ sep @ join sep (y # ys)"

text \<open>Formatter: \<^verbatim>\<open>f"<|im_start|>{msg.author}\n{msg.text}<|im_end|>"\<close>, joined with \<^verbatim>\<open>"\n"\<close>.\<close>

definition format_message :: "message \<Rightarrow> pystr" where
  "format_message msg =
     str ''<|im_start|>'' @ author msg @ [10] @ text msg @ str ''<|im_end|>''"

text \<open>A \<^verbatim>\<open>dict\<close> from \<^verbatim>\<open>str\<close> to \<^verbatim>\<open>str\<close>, as its items in insertion order.\<close>

type_synonym pydict = "(pystr \<times> pystr) list"

definition session_dict :: "message list \<Rightarrow> pydict" where
  "session_dict session = [(str ''text'', join [10] (map format_message session))]"

text \<open>
  \<^verbatim>\<open>json.dump(session, f, ensure_ascii=False)\<close> for such a dict. A string is written between
  double quotes; the double quote (34), the backslash (92) and the control characters
  below 32 are escaped, the latter as \<^verbatim>\<open>\n\<close>, \<^verbatim>\<open>\r\<close>, \<^verbatim>\<open>\t\<close>, \<^verbatim>\<open>\f\<close>, \<^verbatim>\<open>\b\<close> or
  \<^verbatim>\<open>\u00XX\<close> with lower-case hexadecimal digits; every other code point is written as it
  is, a lone surrogate too.
\<close>

definition hex_digit :: "nat \<Rightarrow> nat" where
  "hex_digit n = (if n < 10 then 48 + n else 87 + n)"

definition json_escape :: "nat \<Rightarrow> pystr" where
  "json_escape c =
     (if c = 34 then [92, 34]
      else if c = 92 then [92, 92]
      else if c = 10 then [92, 110]
      else if c = 13 then [92, 114]
      else if c = 9 then [92, 116]
      else if c = 12 then [92, 102]
      else if c = 8 then [92, 98]
      else if c < 32 then [92, 117, 48, 48, hex_digit (c div 16), hex_digit (c mod 16)]
      else [c])"

definition json_string :: "pystr \<Rightarrow> pystr" where
  "json_string s = [34] @ concat (map json_escape s) @ [34]"

text \<open>
  \<^verbatim>\<open>json.dump\<close> does not build the whole text first: it passes the chunks that the encoder
  yields to \<^verbatim>\<open>f.write\<close> one by one. For a dict these are \<^verbatim>\<open>{}\<close> when it is empty, and
  otherwise \<^verbatim>\<open>{\<close>, then for every item the separator \<^verbatim>\<open>, \<close> (not before the first), the key,
  \<^verbatim>\<open>: \<close> and the value, then \<^verbatim>\<open>}\<close>. The dump is the concatenation of the chunks.
\<close>

fun item_chunks :: "bool \<Rightarrow> pydict \<Rightarrow> pystr list" where
  "item_chunks first [] = []"
| "item_chunks first ((k, v) # rest) =
     (if first then [] else [str '', '']) @ [json_string k, str '': '', json_string v]
       @ item_chunks False rest"

definition json_dump_chunks :: "pydict \<Rightarrow> pystr list" where
  "json_dump_chunks d =
     (if d = [] then [str ''{}''] else [str ''{''] @ item_chunks True d @ [str ''}''])"

definition json_dump :: "pydict \<Rightarrow> pystr" where
  "json_dump d = concat (json_dump_chunks d)"

text \<open>
  How a JSON parser reads the body of such a string back: the inverse of the escapes,
  used to state that the value of a dumped string can be recovered from the dump.
\<close>

definition hex_value :: "nat \<Rightarrow> nat" where
  "hex_value c = (if c < 58 then c - 48 else c - 87)"

fun json_unescape :: "pystr \<Rightarrow> pystr" where
  "json_unescape [] = []"
| "json_unescape [c] = [c]"
| "json_unescape (c # e # rest) =
     (if c = 92
      then (if e = 117
            then (case rest of
                    a # b # x # y # rest' \<Rightarrow>
                      (hex_value a * 4096 + hex_value b * 256 + hex_value x * 16 + hex_value y)
                        # json_unescape rest'
                  | _ \<Rightarrow> [])
            else (if e = 110 then 10 else if e = 114 then 13 else if e = 116 then 9
                  else if e = 102 then 12 else if e = 98 then 8 else e)
                   # json_unescape rest)
      else c # json_unescape (e # rest))"

text \<open>
  Writer: \<^verbatim>\<open>open(output, "w", encoding="utf-8")\<close> truncates the file, whatever it held
  (\<open>None\<close>: no such file yet). A file is modelled by the text written to it.
\<close>

definition open_w :: "pystr option \<Rightarrow> pystr" where
  "open_w old = []"

text \<open>
  \<^verbatim>\<open>f.write(chunk)\<close> encodes the chunk as UTF-8 and raises \<^verbatim>\<open>UnicodeEncodeError\<close> when it holds
  a surrogate (the code points 55296 to 57343, which \<^verbatim>\<open>json.load\<close> yields for an escape
  such as \<^verbatim>\<open>\ud800\<close>); nothing of that chunk is written then. The exception leaves the
  \<^verbatim>\<open>with\<close> block, which closes the file with the chunks written so far. \<open>write_chunks\<close>
  performs a sequence of writes: the result is the content of the file, or the exception
  together with the content that the file is left with.
\<close>

definition utf8_encodable :: "pystr \<Rightarrow> bool" where
  "utf8_encodable s = list_all (\<lambda>c. c < 55296 \<or> 57343 < c) s"

fun write_chunks :: "pystr \<Rightarrow> pystr list \<Rightarrow> error \<times> pystr + pystr" where
  "write_chunks f [] = Inr f"
| "write_chunks f (chunk # rest) =
     (if utf8_encodable chunk then write_chunks (f @ chunk) rest
      else Inl (UnicodeEncodeError, f))"

text \<open>
  The loop \<^verbatim>\<open>for session in session_dicts\<close>, lines 113 to 115: for every record the writes of
  \<^verbatim>\<open>json.dump\<close>, then \<^verbatim>\<open>f.write("\n")\<close>.
\<close>

definition write_jsonl :: "pystr option \<Rightarrow> pydict list \<Rightarrow> error \<times> pystr + pystr" where
  "write_jsonl old session_dicts =
     write_chunks (open_w old)
       (concat (map (\<lambda>session. json_dump_chunks session @ [[10]]) session_dicts))"

text \<open>\<^verbatim>\<open>target_name or extracted_target_name\<close>: the empty string is false.\<close>

definition py_or :: "pystr option \<Rightarrow> pystr option \<Rightarrow> pystr option" where
  "py_or a b = (case a of Some s \<Rightarrow> if s \<noteq> [] then Some s else b | None \<Rightarrow> b)"

text \<open>
  \<^verbatim>\<open>transform_chats\<close> from line 75 on, given what \<^verbatim>\<open>load_chats\<close> returned, the reading
  \<open>now\<close> of the clock and the old content of the output file. The result is the new
  content of the output file, or the exception that ended the run together with what the
  output file holds then: no statement before line 112 touches that file, so an exception
  raised before leaves it as it was, and an exception of the writer leaves what was
  written.
\<close>

definition transform_loaded ::
  "chat list \<Rightarrow> pystr option \<Rightarrow> pystr option \<Rightarrow> datetime \<Rightarrow> int \<Rightarrow> int \<Rightarrow> pystr
     \<Rightarrow> pystr option \<Rightarrow> error \<times> pystr option + pystr" where
  "transform_loaded chats extracted_target_name target_name now last_x_months
       session_minutes_threshold delimiter old =
     (let target = py_or target_name extracted_target_name in
      case cutoff_date now last_x_months of
        Inl e \<Rightarrow> Inl (e, old)
      | Inr cutoff \<Rightarrow>
          (case transform_chats_loop target session_minutes_threshold delimiter
                  (date_filter cutoff chats) of
             Inl e \<Rightarrow> Inl (e, old)
           | Inr chats' \<Rightarrow>
               (case write_jsonl old (map session_dict (all_sessions chats')) of
                  Inl (e, f) \<Rightarrow> Inl (e, Some f)
                | Inr f \<Rightarrow> Inr f)))"

section \<open>Loader: \<^verbatim>\<open>load_chats\<close>\<close>

text \<open>
  What \<^verbatim>\<open>json.load\<close> returns: \<^verbatim>\<open>None\<close>, a \<^verbatim>\<open>bool\<close>, an \<^verbatim>\<open>int\<close>, a \<^verbatim>\<open>float\<close>, a \<^verbatim>\<open>str\<close>, a
  \<^verbatim>\<open>list\<close> or a \<^verbatim>\<open>dict\<close> with \<^verbatim>\<open>str\<close> keys, given as its items in insertion order (the keys are
  distinct).
\<close>

datatype pyfloat = Finite rat | PosInf | NegInf | NaN

datatype json =
  JNull | JBool bool | JInt int | JFloat pyfloat | JStr pystr
  | JList "json list" | JDict "(pystr \<times> json) list"

text \<open>Exceptions are values; \<open>and_then\<close> passes the first one on.\<close>

fun and_then :: "error + 'a \<Rightarrow> ('a \<Rightarrow> error + 'b) \<Rightarrow> error + 'b" where
  "and_then (Inl e) f = Inl e"
| "and_then (Inr x) f = f x"

text \<open>\<^verbatim>\<open>obj[key]\<close> for a \<^verbatim>\<open>str\<close> key: only a \<^verbatim>\<open>dict\<close> can be subscripted by a \<^verbatim>\<open>str\<close>.\<close>

fun getitem :: "json \<Rightarrow> pystr \<Rightarrow> error + json" where
  "getitem (JDict items) key =
     (case map_of items key of Some v \<Rightarrow> Inr v | None \<Rightarrow> Inl KeyError)"
| "getitem obj key = Inl TypeError"

text \<open>
  \<^verbatim>\<open>key in obj\<close> for a \<^verbatim>\<open>str\<close> key: a key of a \<^verbatim>\<open>dict\<close>, an element of a \<^verbatim>\<open>list\<close>, a substring
  of a \<^verbatim>\<open>str\<close>; the other values are not containers.
\<close>

fun contains :: "pystr \<Rightarrow> json \<Rightarrow> error + bool" where
  "contains key (JDict items) = Inr (key \<in> set (map fst items))"
| "contains key (JList xs) = Inr (JStr key \<in> set xs)"
| "contains key (JStr s) = Inr (sublist key s)"
| "contains key obj = Inl TypeError"

text \<open>\<^verbatim>\<open>for x in obj\<close>: the elements of a \<^verbatim>\<open>list\<close>, the keys of a \<^verbatim>\<open>dict\<close>, the characters of a \<^verbatim>\<open>str\<close>.\<close>

fun iterate :: "json \<Rightarrow> error + json list" where
  "iterate (JList xs) = Inr xs"
| "iterate (JDict items) = Inr (map (\<lambda>(k, v). JStr k) items)"
| "iterate (JStr s) = Inr (map (\<lambda>c. JStr [c]) s)"
| "iterate obj = Inl TypeError"

text \<open>The truth value of an object.\<close>

fun truthy :: "json \<Rightarrow> bool" where
  "truthy JNull = False"
| "truthy (JBool b) = b"
| "truthy (JInt n) = (n \<noteq> 0)"
| "truthy (JFloat f) = (f \<noteq> Finite 0)"
| "truthy (JStr s) = (s \<noteq> [])"
| "truthy (JList xs) = (xs \<noteq> [])"
| "truthy (JDict items) = (items \<noteq> [])"

text \<open>
  The library functions that \<^verbatim>\<open>load_chats\<close> calls and that are not part of this
  repository are parameters: \<^verbatim>\<open>int(s)\<close> for a \<^verbatim>\<open>str\<close> (\<open>None\<close>: \<^verbatim>\<open>ValueError\<close>), \<^verbatim>\<open>str(x)\<close> for a
  \<^verbatim>\<open>float\<close>, a \<^verbatim>\<open>list\<close> or a \<^verbatim>\<open>dict\<close>, and the pydantic constructors
  \<^verbatim>\<open>Message(date=, author=, text=)\<close> and \<^verbatim>\<open>Chat(name=, type=, messages=)\<close>, which validate their
  arguments (\<open>None\<close>: \<^verbatim>\<open>ValidationError\<close>).
\<close>

record pylib =
  int_of_str :: "pystr \<Rightarrow> int option"
  repr :: "json \<Rightarrow> pystr"
  new_Message :: "json \<Rightarrow> json \<Rightarrow> pystr \<Rightarrow> message option"
  new_Chat :: "json \<Rightarrow> json \<Rightarrow> message list \<Rightarrow> chat option"

text \<open>\<^verbatim>\<open>int(x)\<close>\<close>

fun py_int :: "pylib \<Rightarrow> json \<Rightarrow> error + int" where
  "py_int lib (JInt n) = Inr n"
| "py_int lib (JBool b) = Inr (if b then 1 else 0)"
| "py_int lib (JFloat (Finite q)) = Inr (if 0 \<le> q then \<lfloor>q\<rfloor> else \<lceil>q\<rceil>)"
| "py_int lib (JFloat NaN) = Inl ValueError"
| "py_int lib (JFloat f) = Inl OverflowError"
| "py_int lib (JStr s) =
     (case int_of_str lib s of Some n \<Rightarrow> Inr n | None \<Rightarrow> Inl ValueError)"
| "py_int lib obj = Inl TypeError"

text \<open>The decimal digits of a natural number, and \<^verbatim>\<open>str(i)\<close> for an \<^verbatim>\<open>int\<close>.\<close>

fun digits :: "nat \<Rightarrow> pystr" where
  "digits n = (if n < 10 then [48 + n] else digits (n div 10) @ [48 + n mod 10])"

definition str_int :: "int \<Rightarrow> pystr" where
  "str_int i = (if i < 0 then 45 # digits (nat (- i)) else digits (nat i))"

text \<open>\<^verbatim>\<open>str(x)\<close>\<close>

fun py_str :: "pylib \<Rightarrow> json \<Rightarrow> pystr" where
  "py_str lib (JStr s) = s"
| "py_str lib JNull = str ''None''"
| "py_str lib (JBool b) = (if b then str ''True'' else str ''False'')"
| "py_str lib (JInt n) = str_int n"
| "py_str lib obj = repr lib obj"

text \<open>
  \<^verbatim>\<open>next(msg for msg in chat["messages"] if msg["from_id"] == f"user{target_id}")\<close>: the
  generator yields the first message that passes the test, and \<^verbatim>\<open>next\<close>, called without
  a default, raises \<^verbatim>\<open>StopIteration\<close> when the generator ends.
\<close>

fun next_from :: "pystr \<Rightarrow> json list \<Rightarrow> error + json" where
  "next_from user [] = Inl StopIteration"
| "next_from user (msg # rest) =
     and_then (getitem msg (str ''from_id'')) (\<lambda>from_id.
       if from_id = JStr user then Inr msg else next_from user rest)"

text \<open>The branch \<^verbatim>\<open>if "name" not in chat\<close>, lines 30 to 37: the new target id and name.\<close>

definition saved_messages :: "pylib \<Rightarrow> json \<Rightarrow> error + int \<times> pystr" where
  "saved_messages lib c =
     and_then (getitem c (str ''id'')) (\<lambda>id.
     and_then (py_int lib id) (\<lambda>target_id.
     and_then (getitem c (str ''messages'')) (\<lambda>msgs.
     and_then (iterate msgs) (\<lambda>msgs.
     and_then (next_from (str ''user'' @ str_int target_id) msgs) (\<lambda>msg.
     and_then (getitem msg (str ''from'')) (\<lambda>from.
       Inr (target_id, py_str lib from)))))))"

text \<open>
  The condition of the comprehension, lines 53 to 55:
  \<^verbatim>\<open>"from" in msg and msg["from"] and (msg["text_entities"] or "sticker_emoji" in msg)\<close>.
\<close>

definition usable :: "json \<Rightarrow> error + bool" where
  "usable msg =
     and_then (contains (str ''from'') msg) (\<lambda>has_from.
       if \<not> has_from then Inr False
       else and_then (getitem msg (str ''from'')) (\<lambda>from.
         if \<not> truthy from then Inr False
         else and_then (getitem msg (str ''text_entities'')) (\<lambda>text_entities.
           if truthy text_entities then Inr True
           else contains (str ''sticker_emoji'') msg)))"

text \<open>\<^verbatim>\<open>[text_entity["text"] for text_entity in msg["text_entities"]]\<close>\<close>

fun entity_texts :: "json list \<Rightarrow> error + json list" where
  "entity_texts [] = Inr []"
| "entity_texts (text_entity # rest) =
     and_then (getitem text_entity (str ''text'')) (\<lambda>t.
     and_then (entity_texts rest) (\<lambda>ts. Inr (t # ts)))"

text \<open>\<^verbatim>\<open>"".join(parts)\<close> raises \<^verbatim>\<open>TypeError\<close> unless every part is a \<^verbatim>\<open>str\<close>.\<close>

fun join_strs :: "json list \<Rightarrow> error + pystr" where
  "join_strs [] = Inr []"
| "join_strs (JStr s # rest) = and_then (join_strs rest) (\<lambda>t. Inr (s @ t))"
| "join_strs (obj # rest) = Inl TypeError"

text \<open>\<^verbatim>\<open>s + x\<close> for a \<^verbatim>\<open>str\<close> \<^verbatim>\<open>s\<close> raises \<^verbatim>\<open>TypeError\<close> unless \<^verbatim>\<open>x\<close> is a \<^verbatim>\<open>str\<close>.\<close>

fun str_add :: "pystr \<Rightarrow> json \<Rightarrow> error + pystr" where
  "str_add s (JStr t) = Inr (s @ t)"
| "str_add s obj = Inl TypeError"

text \<open>
  \<^verbatim>\<open>msg.get("sticker_emoji", "")\<close>. It is evaluated after \<^verbatim>\<open>msg["from"]\<close> has succeeded, so
  \<^verbatim>\<open>msg\<close> is a \<^verbatim>\<open>dict\<close>; the other values have no \<^verbatim>\<open>get\<close>, which Python reports as an
  \<^verbatim>\<open>AttributeError\<close>, an exception no run of \<^verbatim>\<open>load_chats\<close> meets and that is given here as
  \<^verbatim>\<open>TypeError\<close>.
\<close>

fun get_default :: "json \<Rightarrow> pystr \<Rightarrow> json \<Rightarrow> error + json" where
  "get_default (JDict items) key d =
     (case map_of items key of Some v \<Rightarrow> Inr v | None \<Rightarrow> Inr d)"
| "get_default obj key d = Inl TypeError"

text \<open>The \<^verbatim>\<open>Message(...)\<close> expression, lines 43 to 53.\<close>

definition make_message :: "pylib \<Rightarrow> json \<Rightarrow> error + message" where
  "make_message lib msg =
     and_then (getitem msg (str ''date'')) (\<lambda>d.
     and_then (getitem msg (str ''from'')) (\<lambda>from.
     and_then (getitem msg (str ''text_entities'')) (\<lambda>text_entities.
     and_then (iterate text_entities) (\<lambda>text_entities.
     and_then (entity_texts text_entities) (\<lambda>parts.
     and_then (join_strs parts) (\<lambda>joined.
     and_then (get_default msg (str ''sticker_emoji'') (JStr [])) (\<lambda>sticker_emoji.
     and_then (str_add joined sticker_emoji) (\<lambda>t.
       case new_Message lib d from t of
         Some m \<Rightarrow> Inr m
       | None \<Rightarrow> Inl ValidationError))))))))"

text \<open>The comprehension \<^verbatim>\<open>messages = [Message(...) for msg in chat["messages"] if ...]\<close>.\<close>

fun make_messages :: "pylib \<Rightarrow> json list \<Rightarrow> error + message list" where
  "make_messages lib [] = Inr []"
| "make_messages lib (msg # rest) =
     and_then (usable msg) (\<lambda>ok.
       if ok
       then and_then (make_message lib msg) (\<lambda>m.
            and_then (make_messages lib rest) (\<lambda>ms. Inr (m # ms)))
       else make_messages lib rest)"

text \<open>
  The body of \<^verbatim>\<open>for chat in json.load(f)["chats"]["list"]\<close>; the state is \<^verbatim>\<open>chats\<close>,
  \<^verbatim>\<open>target_id\<close> and \<^verbatim>\<open>target_name\<close>.
\<close>

type_synonym loader_state = "chat list \<times> int option \<times> pystr option"

definition load_chat :: "pylib \<Rightarrow> loader_state \<Rightarrow> json \<Rightarrow> error + loader_state" where
  "load_chat lib st c =
     (case st of (chats, target_id, target_name) \<Rightarrow>
        and_then (contains (str ''name'') c) (\<lambda>has_name.
          if \<not> has_name
          then and_then (saved_messages lib c) (\<lambda>(target_id', target_name').
                 Inr (chats, Some target_id', Some target_name'))
          else and_then (getitem c (str ''name'')) (\<lambda>chat_name.
            if truthy chat_name
            then and_then (getitem c (str ''messages'')) (\<lambda>msgs.
                 and_then (iterate msgs) (\<lambda>msgs.
                 and_then (make_messages lib msgs) (\<lambda>ms.
                   if ms \<noteq> []
                   then and_then (getitem c (str ''type'')) (\<lambda>chat_type.
                          case new_Chat lib chat_name chat_type ms of
                            Some c' \<Rightarrow> Inr (chats @ [c'], target_id, target_name)
                          | None \<Rightarrow> Inl ValidationError)
                   else Inr st)))
            else Inr st)))"

fun load_chats_loop :: "pylib \<Rightarrow> loader_state \<Rightarrow> json list \<Rightarrow> error + loader_state" where
  "load_chats_loop lib st [] = Inr st"
| "load_chats_loop lib st (c # rest) =
     and_then (load_chat lib st c) (\<lambda>st'. load_chats_loop lib st' rest)"

text \<open>
  \<^verbatim>\<open>load_chats\<close>, applied to the value that \<^verbatim>\<open>json.load(f)\<close> returned. The third component of
  the result tells whether the warning of line 62 was logged (\<^verbatim>\<open>if not target_name\<close>).
\<close>

definition load_chats ::
  "pylib \<Rightarrow> json \<Rightarrow> error + chat list \<times> (int option \<times> pystr option) \<times> bool" where
  "load_chats lib export =
     and_then (getitem export (str ''chats'')) (\<lambda>cs.
     and_then (getitem cs (str ''list'')) (\<lambda>l.
     and_then (iterate l) (\<lambda>entries.
     and_then (load_chats_loop lib ([], None, None) entries)
       (\<lambda>(chats, target_id, target_name).
          Inr (chats, (target_id, target_name),
               target_name = None \<or> target_name = Some [])))))"

text \<open>
  \<^verbatim>\<open>transform_chats\<close>. \<open>export\<close> is what \<^verbatim>\<open>json.load\<close> reads from the file \<^verbatim>\<open>input\<close>, \<open>old\<close> is
  what the file \<^verbatim>\<open>output\<close> holds before the run, \<open>now\<close> is the reading of \<^verbatim>\<open>datetime.now()\<close>;
  the other parameters are those of the Python function. The result is what the file
  \<^verbatim>\<open>output\<close> holds after the run, or the exception that ended the run together with what
  that file holds then.
\<close>

definition transform_chats ::
  "pylib \<Rightarrow> json \<Rightarrow> pystr option \<Rightarrow> pystr option \<Rightarrow> datetime \<Rightarrow> int \<Rightarrow> int \<Rightarrow> pystr
     \<Rightarrow> error \<times> pystr option + pystr" where
  "transform_chats lib export old target_name now last_x_months session_minutes_threshold
       delimiter =
     (case load_chats lib export of
        Inl e \<Rightarrow> Inl (e, old)
      | Inr (chats, (target_id, extracted_target_name), warned) \<Rightarrow>
          transform_loaded chats extracted_target_name target_name now last_x_months
            session_minutes_threshold delimiter old)"

section \<open>Concrete inputs\<close>

text \<open>The default \<^verbatim>\<open>concat_one_user_messages_delimeter\<close>, \<^verbatim>\<open>"\n>>>"\<close>.\<close>

definition default_delimiter :: pystr where
  "default_delimiter = [10, 62, 62, 62]"

text \<open>
  A chat of three messages a minute apart: Bob's \<^verbatim>\<open>hey\<close> and \<^verbatim>\<open>you there?\<close>, then Alice's
  \<^verbatim>\<open>yes\<close>.
\<close>

definition example_messages :: "message list" where
  "example_messages =
     [\<lparr>date = 0, author = str ''Bob'', text = str ''hey''\<rparr>,
      \<lparr>date = 60000000, author = str ''Bob'', text = str ''you there?''\<rparr>,
      \<lparr>date = 120000000, author = str ''Alice'', text = str ''yes''\<rparr>]"

definition example_heap :: heap where
  "example_heap = heap_of example_messages"

text \<open>The result of merging the one session of that chat, and of merging the result again.\<close>

definition merged_once :: "heap \<times> ref list list" where
  "merged_once = projr (combine_consecutive_messages example_heap [[0, 1, 2]] default_delimiter)"

definition merged_twice :: "heap \<times> ref list list" where
  "merged_twice =
     projr (combine_consecutive_messages (fst merged_once) (snd merged_once) default_delimiter)"

text \<open>The example chat as \<^verbatim>\<open>load_chats\<close> returns it.\<close>

definition example_chat :: chat where
  "example_chat =
     \<lparr>name = str ''Bob'', type = personal_chat, messages = example_messages, sessions = []\<rparr>"

text \<open>
  The session that the example chat gives after the merge, and the line
  \<^verbatim>\<open>{"text": "<|im_start|>Bob\n>>>hey\n>>>you there?<|im_end|>\n<|im_start|>Alice\n>>>yes<|im_end|>"}\<close>
  that the writer is to write for it (\<^verbatim>\<open>\n\<close> is a backslash and the letter n here).
\<close>

definition example_session :: "message list" where
  "example_session =
     [\<lparr>date = 0, author = str ''Bob'', text = str ''>>>hey'' @ [10] @ str ''>>>you there?''\<rparr>,
      \<lparr>date = 120000000, author = str ''Alice'', text = str ''>>>yes''\<rparr>]"

definition example_line :: pystr where
  "example_line =
     [123, 34, 116, 101, 120, 116, 34, 58, 32, 34, 60, 124, 105, 109, 95, 115,
      116, 97, 114, 116, 124, 62, 66, 111, 98, 92, 110, 62, 62, 62, 104, 101,
      121, 92, 110, 62, 62, 62, 121, 111, 117, 32, 116, 104, 101, 114, 101, 63,
      60, 124, 105, 109, 95, 101, 110, 100, 124, 62, 92, 110, 60, 124, 105, 109,
      95, 115, 116, 97, 114, 116, 124, 62, 65, 108, 105, 99, 101, 92, 110, 62,
      62, 62, 121, 101, 115, 60, 124, 105, 109, 95, 101, 110, 100, 124, 62, 34,
      125]"

text \<open>
  An export of two entries. The first has no \<^verbatim>\<open>name\<close>: it is the self-record, with the id 1
  and one message, sent by \<^verbatim>\<open>user2\<close>. The second is a chat with Bob that holds one message.
\<close>

definition example_export :: json where
  "example_export =
     JDict [(str ''chats'', JDict [(str ''list'', JList
       [JDict [(str ''id'', JInt 1),
               (str ''type'', JStr (str ''saved_messages'')),
               (str ''messages'', JList
                  [JDict [(str ''from'', JStr (str ''Eve'')),
                          (str ''from_id'', JStr (str ''user2''))]])],
        JDict [(str ''name'', JStr (str ''Bob'')),
               (str ''type'', JStr (str ''personal_chat'')),
               (str ''id'', JInt 7),
               (str ''messages'', JList
                  [JDict [(str ''date'', JStr (str ''2024-01-01T00:00:00'')),
                          (str ''from'', JStr (str ''Bob'')),
                          (str ''from_id'', JStr (str ''user7'')),
                          (str ''text_entities'', JList
                             [JDict [(str ''type'', JStr (str ''plain'')),
                                     (str ''text'', JStr (str ''hey''))]])]])]])])]"

text \<open>A session of one message whose text is a lone surrogate.\<close>

definition surrogate_session :: "message list" where
  "surrogate_session = [\<lparr>date = 0, author = str ''Bob'', text = [55296]\<rparr>]"

text \<open>Two messages one day and one minute apart, and two messages exactly one day apart.\<close>

definition long_gap_heap :: heap where
  "long_gap_heap =
     heap_of [\<lparr>date = 0, author = str ''Bob'', text = str ''bye''\<rparr>,
              \<lparr>date = 86460000000, author = str ''Alice'', text = str ''hello''\<rparr>]"

definition day_gap_heap :: heap where
  "day_gap_heap =
     heap_of [\<lparr>date = 0, author = str ''Bob'', text = str ''bye''\<rparr>,
              \<lparr>date = 86400000000, author = str ''Alice'', text = str ''hello''\<rparr>]"

section \<open>Properties of \<^verbatim>\<open>create_sessions\<close>\<close>

lemma gap_below_iff:
  "gap_below h msg prev threshold \<longleftrightarrow>
     ((date (h msg) - date (h prev)) mod 86400000000) div 1000000 < 60 * threshold"
proof -
  have "(of_int s / 60 :: rat) < of_int t \<longleftrightarrow> s < 60 * t" for s t :: int
  proof -
    have "(of_int s / 60 :: rat) < of_int t \<longleftrightarrow> (of_int s :: rat) < of_int (60 * t)"
      by (simp add: field_simps)
    also have "\<dots> \<longleftrightarrow> s < 60 * t"
      by (rule of_int_less_iff)
    finally show ?thesis .
  qed
  then show ?thesis
    by (simp add: gap_below_def datetime_sub_def timedelta_of_microseconds_def)
qed

lemma create_sessions_loop_concat:
  "create_sessions_loop h th ms acc cur = (S, c) \<Longrightarrow>
     concat S @ c = concat acc @ cur @ ms"
  by (induction ms arbitrary: acc cur) (auto split: if_splits)

lemma create_sessions_loop_nonempty:
  "create_sessions_loop h th ms acc cur = (S, c) \<Longrightarrow> [] \<notin> set acc \<Longrightarrow>
     [] \<notin> set S"
proof (induction ms arbitrary: acc cur)
  case Nil
  then show ?case by simp
next
  case (Cons msg rest)
  show ?case
  proof (cases "cur = [] \<or> gap_below h msg (last cur) th")
    case True
    with Cons.prems have "create_sessions_loop h th rest acc (cur @ [msg]) = (S, c)"
      by simp
    from Cons.IH [OF this Cons.prems(2)] show ?thesis .
  next
    case False
    with Cons.prems have "create_sessions_loop h th rest (acc @ [cur]) [msg] = (S, c)"
      by simp
    moreover from False Cons.prems(2) have "[] \<notin> set (acc @ [cur])"
      by auto
    ultimately show ?thesis by (rule Cons.IH)
  qed
qed

lemma concat_create_sessions: "concat (create_sessions h ms th) = ms"
proof (cases "create_sessions_loop h th ms [] []")
  case (Pair S c)
  from create_sessions_loop_concat [OF Pair] have "concat S @ c = ms"
    by simp
  then show ?thesis
    by (cases "c = []") (simp_all add: create_sessions_def Pair)
qed

lemma create_sessions_nonempty: "[] \<notin> set (create_sessions h ms th)"
proof (cases "create_sessions_loop h th ms [] []")
  case (Pair S c)
  from create_sessions_loop_nonempty [OF Pair] have "[] \<notin> set S"
    by simp
  then show ?thesis
    by (cases "c = []") (simp_all add: create_sessions_def Pair)
qed

section \<open>Properties of \<^verbatim>\<open>combine_consecutive_messages\<close>\<close>

lemma author_prefix_text [simp]: "author (prefix_text d h m r) = author (h r)"
  by (simp add: prefix_text_def)

lemma date_prefix_text [simp]: "date (prefix_text d h m r) = date (h r)"
  by (simp add: prefix_text_def)

lemma author_append_text [simp]: "author (append_text d h c m r) = author (h r)"
  by (simp add: append_text_def)

lemma date_append_text [simp]: "date (append_text d h c m r) = date (h r)"
  by (simp add: append_text_def)

lemma starts_after_cong:
  "(\<And>r. author (h' r) = author (h r)) \<Longrightarrow> starts_after h' p ms = starts_after h p ms"
  by (induction ms arbitrary: p) simp_all

lemma starts_after_prev:
  "author (h p) = author (h q) \<Longrightarrow> starts_after h p ms = starts_after h q ms"
  by (induction ms) simp_all

lemma combine_session_loop_result:
  "combine_session_loop d h acc cur rest = (h', acc', cur') \<Longrightarrow>
     acc' @ [cur'] = acc @ cur # starts_after h cur rest
     \<and> (\<forall>r. author (h' r) = author (h r) \<and> date (h' r) = date (h r))"
proof (induction rest arbitrary: h acc cur)
  case Nil
  then show ?case by simp
next
  case (Cons msg rest)
  show ?case
  proof (cases "author (h msg) = author (h cur)")
    case True
    with Cons.prems have
      "combine_session_loop d (append_text d h cur msg) acc cur rest = (h', acc', cur')"
      by simp
    from Cons.IH [OF this] True show ?thesis
      by (simp add: starts_after_cong [of "append_text d h cur msg" h])
  next
    case False
    with Cons.prems have
      "combine_session_loop d (prefix_text d h msg) (acc @ [cur]) msg rest = (h', acc', cur')"
      by simp
    from Cons.IH [OF this] False show ?thesis
      by (simp add: starts_after_cong [of "prefix_text d h msg" h])
  qed
qed

lemma run_starts_Nil [simp]: "run_starts h [] = []"
  by (simp add: run_starts_def)

lemma run_starts_Cons_aux:
  "map (\<lambda>i. xs ! i) (filter (\<lambda>i. author (h (xs ! i)) \<noteq> author (h ((x # xs) ! i))) [0..<length xs])
     = starts_after h x xs"
proof (induction xs arbitrary: x)
  case Nil
  show ?case by simp
next
  case (Cons y ys)
  have upt: "[0..<length (y # ys)] = 0 # map Suc [0..<length ys]"
    by (simp add: upt_conv_Cons map_Suc_upt del: upt_Suc)
  have tail: "map (\<lambda>i. (y # ys) ! i)
          (filter (\<lambda>i. author (h ((y # ys) ! i)) \<noteq> author (h ((x # y # ys) ! i)))
             (map Suc [0..<length ys]))
        = starts_after h y ys"
    using Cons.IH [of y] by (simp add: filter_map o_def)
  show ?case
  proof (cases "author (h y) = author (h x)")
    case True
    then show ?thesis
      unfolding upt using tail by (simp add: starts_after_prev [of h x y])
  next
    case False
    then show ?thesis
      unfolding upt using tail by simp
  qed
qed

lemma run_starts_Cons: "run_starts h (x # xs) = x # starts_after h x xs"
proof -
  have upt: "[0..<length (x # xs)] = 0 # map Suc [0..<length xs]"
    by (simp add: upt_conv_Cons map_Suc_upt del: upt_Suc)
  show ?thesis
    unfolding run_starts_def upt using run_starts_Cons_aux [of xs h x]
    by (simp add: filter_map o_def)
qed

lemma run_starts_cong:
  "(\<And>r. author (h' r) = author (h r)) \<Longrightarrow> run_starts h' s = run_starts h s"
  by (simp add: run_starts_def)

lemma combine_session_result:
  "\<exists>h'. combine_session d h (x # xs) = Inr (h', run_starts h (x # xs))
     \<and> (\<forall>r. author (h' r) = author (h r) \<and> date (h' r) = date (h r))"
proof (cases "combine_session_loop d (prefix_text d h x) [] x xs")
  case (fields h' acc' cur')
  from combine_session_loop_result [OF fields]
  show ?thesis
    by (simp add: fields run_starts_Cons starts_after_cong [of "prefix_text d h x" h])
qed

lemma combine_sessions_loop_result:
  "[] \<notin> set ss \<Longrightarrow>
     \<exists>h'. combine_sessions_loop d h acc ss = Inr (h', acc @ map (run_starts h) ss)
       \<and> (\<forall>r. author (h' r) = author (h r) \<and> date (h' r) = date (h r))"
proof (induction ss arbitrary: h acc)
  case Nil
  show ?case by simp
next
  case (Cons s ss)
  from Cons.prems obtain x xs where s: "s = x # xs"
    by (cases s) auto
  from combine_session_result [of d h x xs] obtain h1 where
    h1: "combine_session d h s = Inr (h1, run_starts h s)"
    and inv: "\<And>r. author (h1 r) = author (h r)" "\<And>r. date (h1 r) = date (h r)"
    unfolding s by blast
  from Cons.prems have "[] \<notin> set ss" by simp
  from Cons.IH [OF this, of h1 "acc @ [run_starts h s]"] obtain h' where
    "combine_sessions_loop d h1 (acc @ [run_starts h s]) ss
       = Inr (h', (acc @ [run_starts h s]) @ map (run_starts h1) ss)"
    and "\<And>r. author (h' r) = author (h1 r)" "\<And>r. date (h' r) = date (h1 r)"
    by blast
  moreover have "map (run_starts h1) ss = map (run_starts h) ss"
    using run_starts_cong [of h1 h] inv(1) by simp
  ultimately show ?case
    using h1 inv by simp
qed

lemma combine_sessions_loop_error:
  "[] \<in> set ss \<Longrightarrow> combine_sessions_loop d h acc ss = Inl IndexError"
proof (induction ss arbitrary: h acc)
  case Nil
  then show ?case by simp
next
  case (Cons s ss)
  show ?case
  proof (cases s)
    case Nil
    then show ?thesis by simp
  next
    case (Cons x xs)
    with Cons.prems have "[] \<in> set ss" by auto
    from combine_session_result [of d h x xs] obtain h1 where
      "combine_session d h s = Inr (h1, run_starts h s)"
      unfolding Cons by blast
    with Cons.IH [OF \<open>[] \<in> set ss\<close>] show ?thesis by simp
  qed
qed


lemma author_starts_after:
  "map (\<lambda>m. author (h m)) (x # starts_after h x xs) = remdups_adj (map (\<lambda>m. author (h m)) (x # xs))"
proof (induction xs arbitrary: x)
  case Nil
  show ?case by simp
next
  case (Cons y ys)
  show ?case
  proof (cases "author (h y) = author (h x)")
    case True
    with Cons.IH [of x] show ?thesis by simp
  next
    case False
    with Cons.IH [of y] show ?thesis by simp
  qed
qed

lemma author_run_starts:
  "map (\<lambda>m. author (h m)) (run_starts h s) = remdups_adj (map (\<lambda>m. author (h m)) s)"
proof (cases s)
  case Nil
  then show ?thesis by simp
next
  case (Cons x xs)
  then show ?thesis
    using author_starts_after [of h x xs] by (simp only: run_starts_Cons)
qed

lemma starts_after_same_author:
  "(\<forall>m\<in>set xs. author (h m) = author (h x)) \<Longrightarrow> starts_after h x xs = []"
  by (induction xs) simp_all

lemma starts_after_alternating:
  "distinct_adj (map (\<lambda>m. author (h m)) (x # xs)) \<Longrightarrow> starts_after h x xs = xs"
  by (induction xs arbitrary: x) auto

lemma subseq_starts_after: "subseq (starts_after h p xs) xs"
  by (induction xs arbitrary: p) auto

lemma subseq_run_starts: "subseq (run_starts h s) s"
  by (cases s) (simp_all add: run_starts_Cons subseq_starts_after)

lemma run_starts_alternating:
  "distinct_adj (map (\<lambda>m. author (h m)) s) \<Longrightarrow> run_starts h s = s"
  by (cases s) (simp_all add: run_starts_Cons starts_after_alternating del: distinct_adj_Cons_Cons)

lemma subseq_concat_run_starts: "subseq (concat (map (run_starts h) ss)) (concat ss)"
  by (induction ss) (simp_all add: list_emb_append_mono subseq_run_starts)

lemma distinct_concat_run_starts:
  "distinct (concat ss) \<Longrightarrow> distinct (concat (map (run_starts h) ss))"
  using subseq_concat_run_starts [of h ss] subseqs_distinctD [of _ "concat ss"]
  by (simp add: set_subseqs_eq)

lemma combine_session_loop_alternating:
  "distinct_adj (map (\<lambda>m. author (h m)) (cur # rest)) \<Longrightarrow>
     combine_session_loop d h acc cur rest
       = (fold (\<lambda>m h. prefix_text d h m) rest h, acc @ butlast (cur # rest), last (cur # rest))"
proof (induction rest arbitrary: h acc cur)
  case Nil
  show ?case by simp
next
  case (Cons msg rest)
  from Cons.prems have ne: "author (h msg) \<noteq> author (h cur)"
    and alt: "distinct_adj (map (\<lambda>m. author (prefix_text d h msg m)) (msg # rest))"
    by (simp_all add: eq_commute)
  from Cons.IH [OF alt, of "acc @ [cur]"] ne show ?case
    by simp
qed

lemma combine_session_alternating:
  assumes "s \<noteq> []" and "distinct_adj (map (\<lambda>m. author (h m)) s)"
  shows "combine_session d h s = Inr (fold (\<lambda>m h. prefix_text d h m) s h, s)"
proof -
  from assms(1) obtain x xs where s: "s = x # xs"
    by (cases s) auto
  from assms(2) have "distinct_adj (map (\<lambda>m. author (prefix_text d h x m)) (x # xs))"
    by (simp add: s)
  from combine_session_loop_alternating [OF this, of d "[]"] show ?thesis
    by (simp add: s del: butlast.simps last.simps)
qed

lemma author_fold_prefix_text [simp]:
  "author (fold (\<lambda>m h. prefix_text d h m) rs h r) = author (h r)"
  by (induction rs arbitrary: h) simp_all

lemma combine_sessions_loop_alternating:
  "[] \<notin> set ss \<Longrightarrow> \<forall>s\<in>set ss. distinct_adj (map (\<lambda>m. author (h m)) s) \<Longrightarrow>
     combine_sessions_loop d h acc ss = Inr (fold (\<lambda>m h. prefix_text d h m) (concat ss) h, acc @ ss)"
proof (induction ss arbitrary: h acc)
  case Nil
  show ?case by simp
next
  case (Cons s ss)
  from Cons.prems have "s \<noteq> []" and "distinct_adj (map (\<lambda>m. author (h m)) s)"
    by auto
  then have step: "combine_session d h s = Inr (fold (\<lambda>m h. prefix_text d h m) s h, s)"
    by (rule combine_session_alternating)
  from Cons.prems have "[] \<notin> set ss"
    and "\<forall>t\<in>set ss. distinct_adj (map (\<lambda>m. author (fold (\<lambda>m h. prefix_text d h m) s h m)) t)"
    by simp_all
  from Cons.IH [OF this, of "acc @ [s]"] step show ?case
    by simp
qed

lemma fold_prefix_text_distinct:
  "distinct rs \<Longrightarrow>
     fold (\<lambda>m h. prefix_text d h m) rs h
       = (\<lambda>r. if r \<in> set rs then (h r)\<lparr>text := lstrip d @ text (h r)\<rparr> else h r)"
proof (induction rs arbitrary: h)
  case Nil
  show ?case by simp
next
  case (Cons x xs)
  from Cons.prems have x: "x \<notin> set xs" and xs: "distinct xs"
    by simp_all
  have "fold (\<lambda>m h. prefix_text d h m) (x # xs) h
      = fold (\<lambda>m h. prefix_text d h m) xs (prefix_text d h x)"
    by simp
  also have "\<dots> = (\<lambda>r. if r \<in> set xs
              then (prefix_text d h x r)\<lparr>text := lstrip d @ text (prefix_text d h x r)\<rparr>
              else prefix_text d h x r)"
    by (rule Cons.IH [OF xs])
  also have "\<dots> = (\<lambda>r. if r \<in> set (x # xs)
              then (h r)\<lparr>text := lstrip d @ text (h r)\<rparr> else h r)"
    using x by (auto simp add: prefix_text_def fun_eq_iff)
  finally show ?case .
qed

section \<open>Claims on \<^verbatim>\<open>create_sessions\<close>\<close>

lemma subseq_hd_concat: "[] \<notin> set xss \<Longrightarrow> subseq (map hd xss) (concat xss)"
proof (induction xss)
  case Nil
  show ?case by simp
next
  case (Cons xs xss)
  then obtain x xs' where xs: "xs = x # xs'"
    by (cases xs) auto
  from Cons have "subseq (map hd xss) (concat xss)"
    by simp
  then have "subseq (map hd xss) (xs' @ concat xss)"
    by (rule list_emb_append2)
  then show ?case
    by (simp add: xs)
qed

lemma create_sessions_single: "create_sessions h [m] th = [[m]]"
  by (simp add: create_sessions_def)

lemma create_sessions_Nil: "create_sessions h [] th = []"
  by (simp add: create_sessions_def)

lemma disjoint_sessions:
  "distinct (concat xss) \<Longrightarrow> i < j \<Longrightarrow> j < length xss \<Longrightarrow> set (xss ! i) \<inter> set (xss ! j) = {}"
proof (induction xss arbitrary: i j)
  case Nil
  then show ?case by simp
next
  case (Cons xs xss)
  show ?case
  proof (cases i)
    case 0
    with Cons.prems obtain j' where j: "j = Suc j'" and "j' < length xss"
      by (cases j) auto
    then have "xss ! j' \<in> set xss" by simp
    with Cons.prems(1) show ?thesis
      by (auto simp add: 0 j)
  next
    case (Suc i')
    with Cons.prems obtain j' where j: "j = Suc j'" and "i' < j'" "j' < length xss"
      by (cases j) auto
    with Cons.IH [of i' j'] Cons.prems(1) show ?thesis
      by (simp add: Suc j)
  qed
qed

lemma example_heap_simps:
  "example_heap 0 = \<lparr>date = 0, author = str ''Bob'', text = str ''hey''\<rparr>"
  "example_heap (Suc 0) = \<lparr>date = 60000000, author = str ''Bob'', text = str ''you there?''\<rparr>"
  "example_heap 2 = \<lparr>date = 120000000, author = str ''Alice'', text = str ''yes''\<rparr>"
  by (simp_all add: example_heap_def heap_of_def example_messages_def)

text \<open>
  Claim C7. For every message list and every threshold, \<^verbatim>\<open>create_sessions\<close> returns a
  partition of its input: the concatenation of the sessions is the input list, so the
  sessions come in the order of their first messages (which form a subsequence of the
  input); no session is empty; when the input lists every message object once, no
  message occurs in two sessions; and a single message gives one session that holds it.
\<close>

theorem create_sessions_partition:
  "concat (create_sessions h ms th) = ms
   \<and> [] \<notin> set (create_sessions h ms th)
   \<and> subseq (map hd (create_sessions h ms th)) ms
   \<and> (distinct ms \<longrightarrow>
        (\<forall>i j. i < j \<and> j < length (create_sessions h ms th) \<longrightarrow>
           set (create_sessions h ms th ! i) \<inter> set (create_sessions h ms th ! j) = {}))
   \<and> create_sessions h [m] th = [[m]]"
proof -
  have c: "concat (create_sessions h ms th) = ms"
    by (rule concat_create_sessions)
  have n: "[] \<notin> set (create_sessions h ms th)"
    by (rule create_sessions_nonempty)
  from subseq_hd_concat [OF n] have s: "subseq (map hd (create_sessions h ms th)) ms"
    by (simp only: c)
  have d: "set (create_sessions h ms th ! i) \<inter> set (create_sessions h ms th ! j) = {}"
    if "distinct ms" "i < j" "j < length (create_sessions h ms th)" for i j
    using disjoint_sessions [of "create_sessions h ms th" i j] that by (simp only: c)
  from c n s d show ?thesis
    by (simp add: create_sessions_single)
qed

text \<open>
  The three messages of the example chat with threshold 1: three sessions of one message.
\<close>

theorem create_sessions_partition_witness:
  "distinct [0, 1, 2 :: nat]
   \<and> create_sessions example_heap [0, 1, 2] 1 = [[0], [1], [2]]
   \<and> concat (create_sessions example_heap [0, 1, 2] 1) = [0, 1, 2]
   \<and> set (create_sessions example_heap [0, 1, 2] 1 ! 0)
       \<inter> set (create_sessions example_heap [0, 1, 2] 1 ! 1) = {}"
proof -
  have d: "distinct [0, 1, 2 :: nat]"
    by simp
  have v: "create_sessions example_heap [0, 1, 2] 1 = [[0], [1], [2]]"
    by (simp add: create_sessions_def gap_below_iff example_heap_simps)
  from create_sessions_partition [of example_heap "[0, 1, 2]" 1] d
  have "concat (create_sessions example_heap [0, 1, 2] 1) = [0, 1, 2]"
    and "\<forall>i j. i < j \<and> j < length (create_sessions example_heap [0, 1, 2] 1) \<longrightarrow>
           set (create_sessions example_heap [0, 1, 2] 1 ! i)
             \<inter> set (create_sessions example_heap [0, 1, 2] 1 ! j) = {}"
    by blast+
  from this(1) this(2) [rule_format, of 0 1] d v show ?thesis
    by simp
qed

text \<open>
  Claim C1, at a failing input. Two messages one day and one minute apart, threshold 10:
  the true elapsed time is 1441 minutes, which is not below 10, and \<^verbatim>\<open>create_sessions\<close>
  still puts both messages into one session, because \<^verbatim>\<open>.seconds\<close> leaves the days out.
\<close>

theorem create_sessions_drops_days:
  "create_sessions long_gap_heap [0, 1] 10 = [[0, 1]]
   \<and> total_minutes (datetime_sub (date (long_gap_heap 1)) (date (long_gap_heap 0))) = 1441
   \<and> \<not> total_minutes (datetime_sub (date (long_gap_heap 1)) (date (long_gap_heap 0))) < 10"
  by (simp add: create_sessions_def gap_below_iff long_gap_heap_def heap_of_def
      total_minutes_def datetime_sub_def timedelta_of_microseconds_def)

text \<open>
  Claim C8, at a failing input. Two messages exactly 1440 minutes apart, threshold 1440:
  the gap equals the threshold, and \<^verbatim>\<open>create_sessions\<close> keeps the second message in the
  session of the first.
\<close>

theorem create_sessions_day_boundary:
  "create_sessions day_gap_heap [0, 1] 1440 = [[0, 1]]
   \<and> total_minutes (datetime_sub (date (day_gap_heap 1)) (date (day_gap_heap 0))) = 1440"
  by (simp add: create_sessions_def gap_below_iff day_gap_heap_def heap_of_def
      total_minutes_def datetime_sub_def timedelta_of_microseconds_def)

text \<open>
  For a gap of at least zero and less than a day, the test of the code is the comparison
  of the true elapsed minutes with the threshold.
\<close>

lemma gap_below_within_a_day:
  assumes "0 \<le> date (h msg) - date (h prev)" and "date (h msg) - date (h prev) < 86400000000"
  shows "gap_below h msg prev th \<longleftrightarrow>
           total_minutes (datetime_sub (date (h msg)) (date (h prev))) < of_int th"
proof -
  define d where "d = date (h msg) - date (h prev)"
  define s where "s = d div 1000000"
  define u where "u = d mod 1000000"
  have u: "0 \<le> u" "u < 1000000"
    by (simp_all add: u_def)
  from assms have small: "d div 86400000000 = 0" "d mod 86400000000 = d"
    by (simp_all add: d_def)
  have total: "total_minutes (datetime_sub (date (h msg)) (date (h prev)))
      = (of_int s + of_int u / 1000000) / 60"
    using small
    by (simp add: total_minutes_def datetime_sub_def timedelta_of_microseconds_def
        d_def [symmetric] s_def u_def)
  have "(of_int s + of_int u / 1000000) / 60 < (of_int th :: rat)
      \<longleftrightarrow> (of_int (s * 1000000 + u) :: rat) < of_int (60 * th * 1000000)"
    by (simp add: field_simps)
  also have "\<dots> \<longleftrightarrow> s * 1000000 + u < 60 * th * 1000000"
    by (rule of_int_less_iff)
  also from u have "\<dots> \<longleftrightarrow> s < 60 * th"
    by linarith
  finally have "total_minutes (datetime_sub (date (h msg)) (date (h prev))) < of_int th
      \<longleftrightarrow> s < 60 * th"
    by (simp only: total)
  moreover have "gap_below h msg prev th \<longleftrightarrow> s < 60 * th"
    using small by (simp add: gap_below_iff d_def [symmetric] s_def)
  ultimately show ?thesis
    by simp
qed

text \<open>
  For a threshold from 1 to 1439 minutes the boundary is as C8 states it: a gap equal to
  the threshold starts a new session, a gap one minute shorter does not.
\<close>

lemma boundary_within_a_day:
  assumes "0 < th" and "th < 1440"
  shows "date (h b) = date (h a) + th * 60000000 \<Longrightarrow> create_sessions h [a, b] th = [[a], [b]]"
    and "date (h b) = date (h a) + (th - 1) * 60000000 \<Longrightarrow> create_sessions h [a, b] th = [[a, b]]"
  using assms by (simp_all add: create_sessions_def gap_below_iff)

section \<open>Claims on \<^verbatim>\<open>combine_consecutive_messages\<close>\<close>

lemma combine_consecutive_messages_result:
  "[] \<notin> set ss \<Longrightarrow>
     \<exists>h'. combine_consecutive_messages h ss d = Inr (h', map (run_starts h) ss)
       \<and> (\<forall>r. author (h' r) = author (h r) \<and> date (h' r) = date (h r))"
  using combine_sessions_loop_result [of ss d h "[]"]
  by (simp add: combine_consecutive_messages_def)

lemma combine_consecutive_messages_error:
  "[] \<in> set ss \<Longrightarrow> combine_consecutive_messages h ss d = Inl IndexError"
  by (simp add: combine_consecutive_messages_def combine_sessions_loop_error)

lemma run_starts_nonempty: "s \<noteq> [] \<Longrightarrow> run_starts h s \<noteq> [] \<and> hd (run_starts h s) = hd s"
  by (cases s) (simp_all add: run_starts_Cons)

lemma run_starts_same_author:
  "s \<noteq> [] \<Longrightarrow> \<forall>m\<in>set s. author (h m) = author (h (hd s)) \<Longrightarrow> run_starts h s = [hd s]"
  by (cases s) (simp_all add: run_starts_Cons starts_after_same_author)

lemma distinct_adj_run_starts:
  "distinct_adj (map (\<lambda>m. author (h m)) (run_starts h s))"
  by (simp only: author_run_starts distinct_adj_remdups_adj)

text \<open>
  Claim C10. \<^verbatim>\<open>combine_consecutive_messages\<close> reads \<^verbatim>\<open>session[0]\<close> of every session: it raises
  \<^verbatim>\<open>IndexError\<close> exactly when some session is empty and returns otherwise. No session that
  \<^verbatim>\<open>create_sessions\<close> produces is empty (an empty message list gives no session at all),
  so the merger never raises on the output of \<^verbatim>\<open>create_sessions\<close>.
\<close>

theorem create_sessions_feeds_combine:
  "(combine_consecutive_messages h ss d = Inl IndexError) = ([] \<in> set ss)
   \<and> (\<exists>h' out. combine_consecutive_messages h ss d = Inr (h', out)) = ([] \<notin> set ss)
   \<and> [] \<notin> set (create_sessions h ms th)
   \<and> create_sessions h [] th = []
   \<and> (\<exists>h' out. combine_consecutive_messages h (create_sessions h ms th) d = Inr (h', out))"
proof -
  have a: "(combine_consecutive_messages h ss d = Inl IndexError) = ([] \<in> set ss)"
  proof (cases "[] \<in> set ss")
    case True
    then show ?thesis by (simp add: combine_consecutive_messages_error)
  next
    case False
    with combine_consecutive_messages_result [of ss h d] show ?thesis by auto
  qed
  have b: "(\<exists>h' out. combine_consecutive_messages h ss d = Inr (h', out)) = ([] \<notin> set ss)"
  proof (cases "[] \<in> set ss")
    case True
    then show ?thesis by (simp add: combine_consecutive_messages_error)
  next
    case False
    with combine_consecutive_messages_result [of ss h d] show ?thesis by auto
  qed
  have c: "[] \<notin> set (create_sessions h ms th)"
    by (rule create_sessions_nonempty)
  from combine_consecutive_messages_result [OF c, of h d]
  have e: "\<exists>h' out. combine_consecutive_messages h (create_sessions h ms th) d = Inr (h', out)"
    by blast
  from a b c e show ?thesis
    by (simp add: create_sessions_Nil)
qed

text \<open>
  An empty session raises; the session of the example chat does not.
\<close>

theorem create_sessions_feeds_combine_witness:
  "combine_consecutive_messages example_heap [[0], []] default_delimiter = Inl IndexError
   \<and> create_sessions example_heap [0, 1, 2] 10 = [[0, 1, 2]]
   \<and> (\<exists>h' out. combine_consecutive_messages example_heap
          (create_sessions example_heap [0, 1, 2] 10) default_delimiter = Inr (h', out))"
proof -
  have v: "create_sessions example_heap [0, 1, 2] 10 = [[0, 1, 2]]"
    by (simp add: create_sessions_def gap_below_iff example_heap_simps)
  from create_sessions_feeds_combine [of example_heap "[[0], []]" default_delimiter "[0, 1, 2]" 10]
  show ?thesis
    using v by simp
qed

text \<open>
  Claim C6. When no input session is empty, \<^verbatim>\<open>combine_consecutive_messages\<close> returns, for every
  session, the messages that start its merge-runs, and it changes no author. So every
  returned session is non-empty and begins with the first message of the input session,
  no two adjacent messages of it have the same author, every surviving message is the
  first member of its run and carries that member's author, and a session of one single
  author comes back as its first message alone.
\<close>

theorem combine_consecutive_messages_alternates:
  assumes "[] \<notin> set ss"
  shows "\<exists>h'. combine_consecutive_messages h ss d = Inr (h', map (run_starts h) ss)
           \<and> (\<forall>m. author (h' m) = author (h m))
           \<and> (\<forall>s\<in>set ss.
                 run_starts h s \<noteq> []
                 \<and> hd (run_starts h s) = hd s
                 \<and> distinct_adj (map (\<lambda>m. author (h' m)) (run_starts h s))
                 \<and> map (\<lambda>m. author (h' m)) (run_starts h s)
                     = remdups_adj (map (\<lambda>m. author (h m)) s)
                 \<and> ((\<forall>m\<in>set s. author (h m) = author (h (hd s))) \<longrightarrow>
                      run_starts h s = [hd s]))"
proof -
  from combine_consecutive_messages_result [OF assms, of h d] obtain h' where
    r: "combine_consecutive_messages h ss d = Inr (h', map (run_starts h) ss)"
    and a: "\<And>m. author (h' m) = author (h m)"
    by blast
  have "run_starts h s \<noteq> [] \<and> hd (run_starts h s) = hd s
      \<and> distinct_adj (map (\<lambda>m. author (h' m)) (run_starts h s))
      \<and> map (\<lambda>m. author (h' m)) (run_starts h s) = remdups_adj (map (\<lambda>m. author (h m)) s)
      \<and> ((\<forall>m\<in>set s. author (h m) = author (h (hd s))) \<longrightarrow> run_starts h s = [hd s])"
    if "s \<in> set ss" for s
  proof -
    from that assms have ne: "s \<noteq> []" by auto
    show ?thesis
      using run_starts_nonempty [OF ne, of h] run_starts_same_author [OF ne, of h]
        distinct_adj_run_starts [of h s] author_run_starts [of h s]
      by (simp add: a)
  qed
  with r a show ?thesis
    by blast
qed

lemma run_starts_example: "run_starts example_heap [0, 1, 2] = [0, 2]"
  by (simp add: run_starts_Cons example_heap_simps str_def)

text \<open>
  The example chat: Bob, Bob, Alice is merged into Bob, Alice.
\<close>

theorem combine_consecutive_messages_alternates_witness:
  "[] \<notin> set [[0, 1, 2 :: nat]]
   \<and> (\<exists>h'. combine_consecutive_messages example_heap [[0, 1, 2]] default_delimiter
               = Inr (h', [[0, 2]])
          \<and> map (\<lambda>m. author (h' m)) [0, 2] = [str ''Bob'', str ''Alice''])"
proof -
  have ne: "[] \<notin> set [[0, 1, 2 :: nat]]"
    by simp
  from combine_consecutive_messages_alternates [OF ne, of example_heap default_delimiter]
  obtain h' where
    r: "combine_consecutive_messages example_heap [[0, 1, 2]] default_delimiter
       = Inr (h', map (run_starts example_heap) [[0, 1, 2]])"
    and a: "\<And>m. author (h' m) = author (example_heap m)"
    by blast
  from r have r': "combine_consecutive_messages example_heap [[0, 1, 2]] default_delimiter
      = Inr (h', [[0, 2]])"
    by (simp only: list.map run_starts_example)
  from a have a': "map (\<lambda>m. author (h' m)) [0, 2] = [str ''Bob'', str ''Alice'']"
    by (simp add: example_heap_simps)
  show ?thesis
  proof (intro conjI exI)
    show "[] \<notin> set [[0, 1, 2 :: nat]]"
      by (rule ne)
    show "combine_consecutive_messages example_heap [[0, 1, 2]] default_delimiter
        = Inr (h', [[0, 2]])"
      by (rule r')
    show "map (\<lambda>m. author (h' m)) [0, 2] = [str ''Bob'', str ''Alice'']"
      by (rule a')
  qed
qed

section \<open>Claim on merging twice\<close>

lemma lstrip_default_delimiter: "lstrip default_delimiter = [62, 62, 62]"
  by (simp add: lstrip_def default_delimiter_def isspace_def)

lemma merged_once_eq:
  "combine_consecutive_messages example_heap [[0, 1, 2]] default_delimiter = Inr merged_once"
proof -
  have "[] \<notin> set [[0, 1, 2 :: nat]]"
    by simp
  from combine_consecutive_messages_result [OF this, of example_heap default_delimiter]
  obtain h' where e: "combine_consecutive_messages example_heap [[0, 1, 2]] default_delimiter
      = Inr (h', map (run_starts example_heap) [[0, 1, 2]])"
    by blast
  show ?thesis
    unfolding merged_once_def e by (simp only: sum.sel)
qed

lemma snd_merged_once: "snd merged_once = [[0, 2]]"
proof -
  have "[] \<notin> set [[0, 1, 2 :: nat]]"
    by simp
  from combine_consecutive_messages_result [OF this, of example_heap default_delimiter]
  obtain h' where e: "combine_consecutive_messages example_heap [[0, 1, 2]] default_delimiter
      = Inr (h', map (run_starts example_heap) [[0, 1, 2]])"
    by blast
  show ?thesis
    unfolding merged_once_def e by (simp only: sum.sel snd_conv list.map run_starts_example)
qed

lemma merged_once_pair:
  "combine_consecutive_messages example_heap [[0, 1, 2]] default_delimiter
      = Inr (fst merged_once, snd merged_once)"
  by (simp only: merged_once_eq prod.collapse)

lemma distinct_example: "distinct (concat [[0, 1, 2 :: nat]])"
  by simp

lemma fst_merged_once:
  "fst merged_once 0 = \<lparr>date = 0, author = str ''Bob'',
      text = [62, 62, 62] @ str ''hey'' @ default_delimiter @ str ''you there?''\<rparr>"
  "fst merged_once 2 = \<lparr>date = 120000000, author = str ''Alice'',
      text = [62, 62, 62] @ str ''yes''\<rparr>"
  unfolding merged_once_def
  by (simp_all add: combine_consecutive_messages_def prefix_text_def append_text_def
      example_heap_simps lstrip_default_delimiter str_def)

text \<open>
  Merging the output of a merge again, for sessions of distinct message objects: nothing
  is merged any more, and every message of the output gets the stripped delimiter in front
  of its text once more.
\<close>

lemma combine_consecutive_messages_twice:
  assumes "combine_consecutive_messages h ss d = Inr (h1, out1)"
    and "distinct (concat ss)"
  shows "combine_consecutive_messages h1 out1 d
           = Inr (\<lambda>m. if m \<in> set (concat out1)
                       then (h1 m)\<lparr>text := lstrip d @ text (h1 m)\<rparr> else h1 m,
                  out1)"
proof -
  have ne: "[] \<notin> set ss"
  proof
    assume "[] \<in> set ss"
    then have "combine_consecutive_messages h ss d = Inl IndexError"
      by (rule combine_consecutive_messages_error)
    with assms(1) show False by simp
  qed
  from combine_consecutive_messages_result [OF ne, of h d] assms(1)
  have out1: "out1 = map (run_starts h) ss"
    and a: "\<And>m. author (h1 m) = author (h m)"
    by auto
  have ne1: "[] \<notin> set out1"
  proof
    assume "[] \<in> set out1"
    then obtain s where s: "s \<in> set ss" "run_starts h s = []"
      by (auto simp add: out1)
    from s(1) ne have "s \<noteq> []" by auto
    from run_starts_nonempty [OF this, of h] s(2) show False by simp
  qed
  have alt: "\<forall>s\<in>set out1. distinct_adj (map (\<lambda>m. author (h1 m)) s)"
    using distinct_adj_run_starts [of h] by (auto simp add: out1 a)
  have d1: "distinct (concat out1)"
    unfolding out1 using assms(2) by (rule distinct_concat_run_starts)
  from combine_sessions_loop_alternating [OF ne1 alt, of d "[]"]
  have "combine_consecutive_messages h1 out1 d
      = Inr (fold (\<lambda>m h. prefix_text d h m) (concat out1) h1, out1)"
    by (simp add: combine_consecutive_messages_def)
  then show ?thesis
    by (simp only: fold_prefix_text_distinct [OF d1])
qed

text \<open>
  Claim C5, amended. For sessions that list every message object once, applying
  \<^verbatim>\<open>combine_consecutive_messages\<close> with the same delimiter to its own output returns the
  same sessions with the same messages, and so the same authors and dates; the text of
  every message of the output is prefixed with the stripped delimiter once more, and
  nothing else in the heap changes. The output is therefore unchanged when the stripped
  delimiter is empty.
\<close>

theorem combine_consecutive_messages_again:
  assumes "combine_consecutive_messages h ss d = Inr (h1, out1)"
    and "distinct (concat ss)"
  shows "combine_consecutive_messages h1 out1 d
           = Inr (\<lambda>m. if m \<in> set (concat out1)
                       then (h1 m)\<lparr>text := lstrip d @ text (h1 m)\<rparr> else h1 m,
                  out1)
         \<and> (lstrip d = [] \<longrightarrow> combine_consecutive_messages h1 out1 d = Inr (h1, out1))"
proof -
  note r = combine_consecutive_messages_twice [OF assms]
  have "combine_consecutive_messages h1 out1 d = Inr (h1, out1)" if "lstrip d = []"
  proof -
    have "(\<lambda>m. if m \<in> set (concat out1)
                then (h1 m)\<lparr>text := lstrip d @ text (h1 m)\<rparr> else h1 m) = h1"
      by (simp add: that fun_eq_iff)
    with r show ?thesis by simp
  qed
  with r show ?thesis
    by (intro conjI impI)
qed

text \<open>
  The example chat, merged once and then again with the default delimiter.
\<close>

theorem combine_consecutive_messages_again_witness:
  "combine_consecutive_messages example_heap [[0, 1, 2]] default_delimiter
     = Inr (fst merged_once, snd merged_once)
   \<and> distinct (concat [[0, 1, 2 :: nat]])
   \<and> combine_consecutive_messages (fst merged_once) (snd merged_once) default_delimiter
       = Inr (\<lambda>m. if m \<in> set (concat (snd merged_once))
                   then (fst merged_once m)
                          \<lparr>text := lstrip default_delimiter @ text (fst merged_once m)\<rparr>
                   else fst merged_once m,
              snd merged_once)"
proof -
  have a: "combine_consecutive_messages example_heap [[0, 1, 2]] default_delimiter
      = Inr (fst merged_once, snd merged_once)"
    by (simp only: merged_once_eq prod.collapse)
  have b: "distinct (concat [[0, 1, 2 :: nat]])"
    by simp
  from combine_consecutive_messages_again [OF a b] have
    "combine_consecutive_messages (fst merged_once) (snd merged_once) default_delimiter
       = Inr (\<lambda>m. if m \<in> set (concat (snd merged_once))
                   then (fst merged_once m)
                          \<lparr>text := lstrip default_delimiter @ text (fst merged_once m)\<rparr>
                   else fst merged_once m,
              snd merged_once)"
    by (rule conjunct1)
  with a b show ?thesis
    by (intro conjI)
qed

lemma merged_twice_eq:
  "combine_consecutive_messages (fst merged_once) (snd merged_once) default_delimiter
     = Inr merged_twice"
  unfolding merged_twice_def
  by (simp only: combine_consecutive_messages_twice [OF merged_once_pair distinct_example] sum.sel)

lemma merged_twice_pair:
  "merged_twice
     = (\<lambda>m. if m \<in> set (concat (snd merged_once))
             then (fst merged_once m)
                    \<lparr>text := lstrip default_delimiter @ text (fst merged_once m)\<rparr>
             else fst merged_once m,
        snd merged_once)"
  unfolding merged_twice_def
  by (simp only: combine_consecutive_messages_twice [OF merged_once_pair distinct_example] sum.sel)

text \<open>
  Claim C5 as stated fails. The example chat is merged into Bob's
  \<^verbatim>\<open>>>>hey\n>>>you there?\<close> and Alice's \<^verbatim>\<open>>>>yes\<close>; merging that output again returns the same
  session of the same two messages, and Bob's text is now \<^verbatim>\<open>>>>>>>hey\n>>>you there?\<close>.
\<close>

theorem combine_consecutive_messages_not_idempotent:
  "combine_consecutive_messages example_heap [[0, 1, 2]] default_delimiter = Inr merged_once
   \<and> combine_consecutive_messages (fst merged_once) (snd merged_once) default_delimiter
       = Inr merged_twice
   \<and> snd merged_twice = snd merged_once
   \<and> text (fst merged_once 0) = str ''>>>hey'' @ [10] @ str ''>>>you there?''
   \<and> text (fst merged_twice 0) = str ''>>>>>>hey'' @ [10] @ str ''>>>you there?''
   \<and> text (fst merged_twice 0) \<noteq> text (fst merged_once 0)"
proof -
  have once: "text (fst merged_once 0) = str ''>>>hey'' @ [10] @ str ''>>>you there?''"
    by (simp add: fst_merged_once str_def default_delimiter_def)
  have twice: "text (fst merged_twice 0) = str ''>>>>>>hey'' @ [10] @ str ''>>>you there?''"
    by (simp add: merged_twice_pair snd_merged_once fst_merged_once lstrip_def isspace_def
        str_def default_delimiter_def)
  have "snd merged_twice = snd merged_once"
    by (simp add: merged_twice_pair)
  moreover have "text (fst merged_twice 0) \<noteq> text (fst merged_once 0)"
    unfolding once twice by (simp add: str_def)
  ultimately show ?thesis
    using once twice merged_once_eq merged_twice_eq by (intro conjI)
qed

section \<open>Claims on the DateFilter and the SessionFilter\<close>

lemma has_target_iff:
  "has_target h target s \<longleftrightarrow>
     (\<exists>i. 1 \<le> i \<and> i < length s \<and> Some (author (h (s ! i))) = target)"
proof
  assume "has_target h target s"
  then obtain m where m: "m \<in> set (drop 1 s)" "Some (author (h m)) = target"
    by (auto simp add: has_target_def list_ex_iff)
  from m(1) obtain k where "k < length (drop 1 s)" "drop 1 s ! k = m"
    by (auto simp add: in_set_conv_nth)
  then have "1 \<le> Suc k \<and> Suc k < length s \<and> s ! Suc k = m"
    by auto
  with m(2) show "\<exists>i. 1 \<le> i \<and> i < length s \<and> Some (author (h (s ! i))) = target"
    by blast
next
  assume "\<exists>i. 1 \<le> i \<and> i < length s \<and> Some (author (h (s ! i))) = target"
  then obtain i where i: "1 \<le> i" "i < length s" "Some (author (h (s ! i))) = target"
    by blast
  then obtain k where k: "i = Suc k"
    by (cases i) auto
  with i(2) have "drop 1 s ! k = s ! i" "k < length (drop 1 s)"
    by auto
  then have "s ! i \<in> set (drop 1 s)"
    by (metis nth_mem)
  with i(3) show "has_target h target s"
    by (auto simp add: has_target_def list_ex_iff)
qed

lemma has_target_None: "\<not> has_target h None s"
  by (simp add: has_target_def list_ex_iff)

lemma session_filter_None: "session_filter h None ss = []"
  by (simp add: session_filter_def has_target_None)

lemma transform_chat_result:
  "\<exists>h'. combine_consecutive_messages (heap_of (messages c))
            (create_sessions (heap_of (messages c)) [0..<length (messages c)] th) d
          = Inr (h', map (run_starts (heap_of (messages c)))
                       (create_sessions (heap_of (messages c)) [0..<length (messages c)] th))
        \<and> transform_chat target th d c
          = Inr (c\<lparr>messages := map h' [0..<length (messages c)],
                 sessions := map (map h')
                   (session_filter h' target
                      (map (run_starts (heap_of (messages c)))
                         (create_sessions (heap_of (messages c)) [0..<length (messages c)] th)))\<rparr>)"
proof -
  have "[] \<notin> set (create_sessions (heap_of (messages c)) [0..<length (messages c)] th)"
    by (rule create_sessions_nonempty)
  from combine_consecutive_messages_result [OF this, of "heap_of (messages c)" d]
  obtain h' where
    "combine_consecutive_messages (heap_of (messages c))
            (create_sessions (heap_of (messages c)) [0..<length (messages c)] th) d
          = Inr (h', map (run_starts (heap_of (messages c)))
                       (create_sessions (heap_of (messages c)) [0..<length (messages c)] th))"
    by blast
  then show ?thesis
    by (simp add: transform_chat_def Let_def)
qed

lemma transform_chat_total: "\<exists>c'. transform_chat target th d c = Inr c'"
  using transform_chat_result [of c th d target] by blast

lemma transform_chat_None:
  "\<exists>c'. transform_chat None th d c = Inr c' \<and> sessions c' = []"
  using transform_chat_result [of c th d None] by (auto simp add: session_filter_None)

lemma transform_chats_loop_total:
  "\<exists>chats'. transform_chats_loop target th d chats = Inr chats'
     \<and> length chats' = length chats
     \<and> (\<forall>i<length chats. transform_chat target th d (chats ! i) = Inr (chats' ! i))"
proof (induction chats)
  case Nil
  show ?case by simp
next
  case (Cons c chats)
  from transform_chat_total [of target th d c] obtain c' where
    c': "transform_chat target th d c = Inr c'"
    by blast
  from Cons.IH obtain chats' where
    l: "transform_chats_loop target th d chats = Inr chats'"
    and n: "length chats' = length chats"
    and each: "\<forall>i<length chats. transform_chat target th d (chats ! i) = Inr (chats' ! i)"
    by blast
  have "\<forall>i<length (c # chats). transform_chat target th d ((c # chats) ! i) = Inr ((c' # chats') ! i)"
    using c' each by (simp add: nth_Cons split: nat.splits)
  with c' l n show ?case
    by simp
qed

lemma transform_chats_loop_None:
  "\<exists>chats'. transform_chats_loop None th d chats = Inr chats' \<and> all_sessions chats' = []"
proof (induction chats)
  case Nil
  show ?case by (simp add: all_sessions_def)
next
  case (Cons c chats)
  from transform_chat_None [of th d c] obtain c' where
    "transform_chat None th d c = Inr c'" "sessions c' = []"
    by blast
  with Cons.IH show ?case
    by (auto simp add: all_sessions_def)
qed

lemma write_jsonl_Nil: "write_jsonl old [] = Inr []"
  by (simp add: write_jsonl_def open_w_def)

text \<open>
  The DateFilter of \<^verbatim>\<open>src/prepare_data.py\<close> drops every chat, whatever the cutoff.
\<close>

lemma date_filter_empty: "date_filter cutoff chats = []"
  by (induction chats) (simp_all add: Let_def setattr_messages_def)

text \<open>
  So \<^verbatim>\<open>transform_chats\<close> of \<^verbatim>\<open>src/prepare_data.py\<close> writes an empty file on every run that reaches the
  writer.
\<close>

lemma transform_loaded_empty:
  "cutoff_date now months = Inr cutoff \<Longrightarrow>
     transform_loaded chats extracted target_name now months th d old = Inr []"
  by (simp add: transform_loaded_def date_filter_empty all_sessions_def write_jsonl_Nil)

text \<open>
  Claim C3. The SessionFilter keeps a session exactly when some message at a position from 1
  on has the target as its author. With the target \<^verbatim>\<open>None\<close> no session passes: the loop
  over the chats still returns, every chat is left without sessions, and the writer
  writes an empty file; so does the whole of \<^verbatim>\<open>transform_chats\<close> after the loader, once
  the cutoff date is in range.
\<close>

theorem session_filter_requires_target:
  "(s \<in> set (session_filter h target ss))
     = (s \<in> set ss \<and> (\<exists>i. 1 \<le> i \<and> i < length s \<and> Some (author (h (s ! i))) = target))
   \<and> session_filter h None ss = []
   \<and> (\<exists>chats'. transform_chats_loop None th d chats = Inr chats'
          \<and> all_sessions chats' = []
          \<and> write_jsonl old (map session_dict (all_sessions chats')) = Inr [])
   \<and> (py_or target_name extracted = None \<and> cutoff_date now months = Inr cutoff \<longrightarrow>
        transform_loaded chats extracted target_name now months th d old = Inr [])"
proof -
  have a: "(s \<in> set (session_filter h target ss))
     = (s \<in> set ss \<and> (\<exists>i. 1 \<le> i \<and> i < length s \<and> Some (author (h (s ! i))) = target))"
    by (simp add: session_filter_def has_target_iff)
  from transform_chats_loop_None [of th d chats] obtain chats' where
    "transform_chats_loop None th d chats = Inr chats'" "all_sessions chats' = []"
    by blast
  then have b: "\<exists>chats'. transform_chats_loop None th d chats = Inr chats'
          \<and> all_sessions chats' = []
          \<and> write_jsonl old (map session_dict (all_sessions chats')) = Inr []"
    by (simp add: write_jsonl_Nil)
  from a b show ?thesis
    by (simp add: session_filter_None transform_loaded_empty)
qed

lemma cutoff_date_example: "cutoff_date 63900000000000000 60 = Inr 63744480000000000"
  by (simp add: cutoff_date_def timedelta_days_def datetime_minus_def datetime_max_def)

text \<open>
  The example chat: the session Bob, Bob, Alice passes for the target Alice, the session Bob,
  Bob does not; with no target at all the run writes an empty file.
\<close>

theorem session_filter_requires_target_witness:
  "py_or None None = None
   \<and> cutoff_date 63900000000000000 60 = Inr 63744480000000000
   \<and> transform_loaded [example_chat] None None 63900000000000000 60 10 default_delimiter None
       = Inr []
   \<and> session_filter example_heap (Some (str ''Alice'')) [[0, 1, 2], [0, 1]] = [[0, 1, 2]]
   \<and> [0, 1, 2] \<in> set (session_filter example_heap (Some (str ''Alice'')) [[0, 1, 2], [0, 1]])"
proof -
  have p: "py_or None None = None"
    by (simp add: py_or_def)
  have f: "session_filter example_heap (Some (str ''Alice'')) [[0, 1, 2], [0, 1]] = [[0, 1, 2]]"
    by (simp add: session_filter_def has_target_def example_heap_simps str_def)
  have i: "[0, 1, 2] \<in> set [[0, 1, 2], [0, 1 :: nat]]
      \<and> (\<exists>i. 1 \<le> i \<and> i < length [0, 1, 2 :: nat]
             \<and> Some (author (example_heap ([0, 1, 2] ! i))) = Some (str ''Alice''))"
    by (auto simp add: example_heap_simps intro!: exI [of _ 2])
  from session_filter_requires_target [of "[0, 1, 2]" example_heap "Some (str ''Alice'')"
      "[[0, 1, 2], [0, 1]]" 10 default_delimiter "[example_chat]" None None None
      63900000000000000 60 63744480000000000] p cutoff_date_example i
  have "transform_loaded [example_chat] None None 63900000000000000 60 10 default_delimiter None
       = Inr []"
    and "[0, 1, 2] \<in> set (session_filter example_heap (Some (str ''Alice'')) [[0, 1, 2], [0, 1]])"
    by blast+
  with p cutoff_date_example f show ?thesis
    by (intro conjI)
qed

text \<open>
  Claim C2, at a failing input of \<^verbatim>\<open>src/prepare_data.py\<close>. All three messages of the example
  chat are newer than the cutoff, and the DateFilter still drops the chat: the condition
  of the comprehension ends in \<^verbatim>\<open>setattr(...)\<close>, which returns \<^verbatim>\<open>None\<close>.
\<close>

theorem date_filter_drops_every_chat:
  "filter (\<lambda>msg. - 1 < date msg) (messages example_chat) = example_messages
   \<and> example_messages \<noteq> []
   \<and> date_filter (- 1) [example_chat] = []"
  by (simp add: example_chat_def example_messages_def Let_def setattr_messages_def)

lemma filter_messages_from_const:
  "filter_messages_from (\<lambda>k. cutoff) k ms = filter (\<lambda>msg. cutoff < date msg) ms"
  by (induction ms arbitrary: k) simp_all

lemma set_filtered_messages_const:
  "set_filtered_messages (\<lambda>k. cutoff) k chats
     = map (\<lambda>c. c\<lparr>messages := filter (\<lambda>msg. cutoff < date msg) (messages c)\<rparr>) chats"
  by (induction chats arbitrary: k) (simp_all add: filter_messages_from_const)

text \<open>
  The DateFilter of \<^verbatim>\<open>src/src/prepare_data.py\<close>, for a clock that does not move during the
  run, does what C2 states: every chat keeps, in order, the messages newer than the
  cutoff, and the chats left without messages are removed.
\<close>

lemma date_filter_two_steps_const:
  "date_filter_two_steps (\<lambda>k. cutoff) chats
     = filter (\<lambda>c. messages c \<noteq> [])
         (map (\<lambda>c. c\<lparr>messages := filter (\<lambda>msg. cutoff < date msg) (messages c)\<rparr>) chats)"
  by (simp add: date_filter_two_steps_def set_filtered_messages_const)

section \<open>Claim on the Formatter and the Writer\<close>

lemma utf8_encodable_Nil [simp]: "utf8_encodable []"
  by (simp add: utf8_encodable_def)

lemma utf8_encodable_append [simp]:
  "utf8_encodable (a @ b) \<longleftrightarrow> utf8_encodable a \<and> utf8_encodable b"
  by (simp add: utf8_encodable_def)

lemma utf8_encodable_Cons:
  "utf8_encodable (c # s) \<longleftrightarrow> (c < 55296 \<or> 57343 < c) \<and> utf8_encodable s"
  by (simp add: utf8_encodable_def)

lemma utf8_encodable_json_escape:
  "utf8_encodable (json_escape c) \<longleftrightarrow> c < 55296 \<or> 57343 < c"
proof (cases "c < 32")
  case True
  have small: "hex_digit n < 55296" if "n < 16" for n
    using that by (simp add: hex_digit_def)
  from True have "c div 16 < 16"
    by simp
  then have "hex_digit (c div 16) < 55296"
    by (rule small)
  moreover have "hex_digit (c mod 16) < 55296"
    by (rule small) simp
  ultimately show ?thesis
    using True
    by (simp add: json_escape_def utf8_encodable_def)
next
  case False
  then show ?thesis
    by (simp add: json_escape_def utf8_encodable_def)
qed

lemma utf8_encodable_escapes:
  "utf8_encodable (concat (map json_escape s)) \<longleftrightarrow> utf8_encodable s"
  by (induction s) (simp_all add: utf8_encodable_json_escape utf8_encodable_Cons)

lemma utf8_encodable_json_string: "utf8_encodable (json_string s) \<longleftrightarrow> utf8_encodable s"
  by (simp add: json_string_def utf8_encodable_escapes utf8_encodable_Cons)

lemma utf8_encodable_join:
  "utf8_encodable [c] \<Longrightarrow> utf8_encodable (join [c] xs) \<longleftrightarrow> list_all utf8_encodable xs"
proof (induction xs rule: induct_list012)
  case 1
  show ?case by simp
next
  case (2 x)
  show ?case by simp
next
  case (3 x y zs)
  then show ?case
    by (simp add: utf8_encodable_Cons)
qed

lemma utf8_encodable_format_message:
  "utf8_encodable (format_message msg)
     \<longleftrightarrow> utf8_encodable (author msg) \<and> utf8_encodable (text msg)"
  by (simp add: format_message_def str_def utf8_encodable_Cons)

text \<open>A session can be written when no author and no text of it holds a surrogate.\<close>

lemma session_chunks:
  "json_dump_chunks (session_dict s)
     = [[123], [34, 116, 101, 120, 116, 34], [58, 32],
        json_string (join [10] (map format_message s)), [125]]"
  by (simp add: json_dump_chunks_def session_dict_def json_string_def json_escape_def str_def)

lemma session_chunks_encodable:
  "list_all utf8_encodable (json_dump_chunks (session_dict s) @ [[10]])
     \<longleftrightarrow> list_all (\<lambda>msg. utf8_encodable (author msg) \<and> utf8_encodable (text msg)) s"
proof -
  have "utf8_encodable [10]"
    by (simp add: utf8_encodable_Cons)
  from utf8_encodable_join [OF this, of "map format_message s"] show ?thesis
    by (simp add: session_chunks utf8_encodable_json_string utf8_encodable_Cons
        utf8_encodable_format_message list_all_iff)
qed

text \<open>
  A sequence of writes succeeds when every chunk can be encoded; otherwise the file is left
  with the chunks before the first one that cannot.
\<close>

lemma write_chunks_eq:
  "write_chunks f cs =
     (if list_all utf8_encodable cs then Inr (f @ concat cs)
      else Inl (UnicodeEncodeError, f @ concat (takeWhile utf8_encodable cs)))"
  by (induction cs arbitrary: f) simp_all

lemma json_escape_no_newline: "10 \<notin> set (json_escape c)"
  by (simp add: json_escape_def hex_digit_def)

lemma json_string_no_newline: "10 \<notin> set (json_string s)"
  by (simp add: json_string_def json_escape_no_newline)

lemma json_dump_session_dict:
  "json_dump (session_dict s)
     = [123, 34, 116, 101, 120, 116, 34, 58, 32]
         @ json_string (join [10] (map format_message s)) @ [125]"
  by (simp add: json_dump_def session_chunks)

lemma json_dump_session_dict_no_newline: "10 \<notin> set (json_dump (session_dict s))"
  by (simp add: json_dump_session_dict json_string_no_newline)

lemma value_encodable:
  "utf8_encodable (json_string (join [10] (map format_message s)))
     \<longleftrightarrow> list_all (\<lambda>msg. utf8_encodable (author msg) \<and> utf8_encodable (text msg)) s"
  using session_chunks_encodable [of s]
  by (simp add: session_chunks utf8_encodable_Cons)

lemma all_chunks_encodable:
  "list_all utf8_encodable
       (concat (map (\<lambda>d. json_dump_chunks d @ [[10]]) (map session_dict ss)))
     \<longleftrightarrow> list_all (list_all (\<lambda>msg. utf8_encodable (author msg) \<and> utf8_encodable (text msg))) ss"
proof (induction ss)
  case Nil
  show ?case by simp
next
  case (Cons s ss)
  with session_chunks_encodable [of s] show ?case
    by auto
qed

lemma concat_all_chunks:
  "concat (concat (map (\<lambda>d. json_dump_chunks d @ [[10]]) (map session_dict ss)))
     = concat (map (\<lambda>s. json_dump (session_dict s) @ [10]) ss)"
  by (induction ss) (simp_all add: json_dump_def)

lemma written_before_failure:
  "\<not> list_all (list_all (\<lambda>msg. utf8_encodable (author msg) \<and> utf8_encodable (text msg))) ss \<Longrightarrow>
     concat (takeWhile utf8_encodable
        (concat (map (\<lambda>d. json_dump_chunks d @ [[10]]) (map session_dict ss))))
     = concat (map (\<lambda>s. json_dump (session_dict s) @ [10])
          (takeWhile (list_all (\<lambda>msg. utf8_encodable (author msg) \<and> utf8_encodable (text msg)))
             ss))
       @ [123, 34, 116, 101, 120, 116, 34, 58, 32]"
proof (induction ss)
  case Nil
  then show ?case by simp
next
  case (Cons s ss)
  show ?case
  proof (cases "list_all (\<lambda>msg. utf8_encodable (author msg) \<and> utf8_encodable (text msg)) s")
    case True
    with session_chunks_encodable [of s]
    have ok: "\<And>c. c \<in> set (json_dump_chunks (session_dict s) @ [[10]]) \<Longrightarrow> utf8_encodable c"
      by (auto simp add: list_all_iff)
    from True Cons.prems have
      "\<not> list_all (list_all (\<lambda>msg. utf8_encodable (author msg) \<and> utf8_encodable (text msg))) ss"
      by simp
    from Cons.IH [OF this] True show ?thesis
      using takeWhile_append2 [of "json_dump_chunks (session_dict s) @ [[10]]" utf8_encodable, OF ok]
      by (simp add: json_dump_def)
  next
    case False
    then have "\<not> utf8_encodable (json_string (join [10] (map format_message s)))"
      by (simp add: value_encodable)
    with False show ?thesis
      by (simp add: session_chunks utf8_encodable_Cons)
  qed
qed

text \<open>
  The writer on the records of a list of sessions: all lines, or the exception after the
  lines of the sessions before the first one that cannot be encoded and the first three
  chunks of that one.
\<close>

lemma write_jsonl_sessions:
  "write_jsonl old (map session_dict ss) =
     (if list_all (list_all (\<lambda>msg. utf8_encodable (author msg) \<and> utf8_encodable (text msg))) ss
      then Inr (concat (map (\<lambda>s. json_dump (session_dict s) @ [10]) ss))
      else Inl (UnicodeEncodeError,
             concat (map (\<lambda>s. json_dump (session_dict s) @ [10])
               (takeWhile
                  (list_all (\<lambda>msg. utf8_encodable (author msg) \<and> utf8_encodable (text msg))) ss))
             @ [123, 34, 116, 101, 120, 116, 34, 58, 32]))"
  by (simp add: write_jsonl_def open_w_def write_chunks_eq all_chunks_encodable
      concat_all_chunks written_before_failure del: map_map)

lemma count_lines:
  "count_list (concat (map (\<lambda>s. json_dump (session_dict s) @ [10]) ss)) 10 = length ss"
  by (induction ss) (simp_all add: json_dump_session_dict_no_newline)

lemma length_all_sessions:
  "length (all_sessions chats) = sum_list (map (\<lambda>c. length (sessions c)) chats)"
  by (simp add: all_sessions_def length_concat o_def)

lemma lines_all_sessions:
  "concat (map (\<lambda>s. json_dump (session_dict s) @ [10]) (all_sessions chats))
     = concat (map (\<lambda>c. concat (map (\<lambda>s. json_dump (session_dict s) @ [10]) (sessions c))) chats)"
  by (induction chats) (simp_all add: all_sessions_def)

lemma encodable_all_sessions:
  "list_all (list_all (\<lambda>msg. utf8_encodable (author msg) \<and> utf8_encodable (text msg)))
       (all_sessions chats)
     \<longleftrightarrow> list_all (\<lambda>c. list_all (list_all (\<lambda>msg. utf8_encodable (author msg)
                                           \<and> utf8_encodable (text msg))) (sessions c)) chats"
  by (induction chats) (simp_all add: all_sessions_def)

text \<open>
  The escapes of \<^verbatim>\<open>json.dump\<close> lose nothing: the string can be read back from its dump.
\<close>

lemma json_unescape_plain: "c \<noteq> 92 \<Longrightarrow> json_unescape (c # r) = c # json_unescape r"
  by (cases r) simp_all

lemma hex_value_hex_digit: "n < 16 \<Longrightarrow> hex_value (hex_digit n) = n"
  by (simp add: hex_value_def hex_digit_def)

lemma json_unescape_escape: "json_unescape (json_escape c @ r) = c # json_unescape r"
proof (cases "c < 32")
  case True
  then have "c div 16 < 16" "c mod 16 < 16"
    by simp_all
  then have "hex_value (hex_digit (c div 16)) * 16 + hex_value (hex_digit (c mod 16)) = c"
    by (simp add: hex_value_hex_digit)
  moreover have "hex_value 48 = 0"
    by (simp add: hex_value_def)
  ultimately show ?thesis
    using True by (simp add: json_escape_def)
next
  case False
  then show ?thesis
    by (simp add: json_escape_def json_unescape_plain)
qed

lemma json_unescape_escapes: "json_unescape (concat (map json_escape s)) = s"
  by (induction s) (simp_all add: json_unescape_escape)

lemma json_string_inj: "json_string s = json_string t \<Longrightarrow> s = t"
proof -
  assume "json_string s = json_string t"
  then have "concat (map json_escape s) = concat (map json_escape t)"
    by (simp add: json_string_def)
  then have "json_unescape (concat (map json_escape s)) = json_unescape (concat (map json_escape t))"
    by simp
  then show "s = t"
    by (simp only: json_unescape_escapes)
qed


lemma length_takeWhile_less: "\<not> list_all P xs \<Longrightarrow> length (takeWhile P xs) < length xs"
  by (induction xs) auto

lemma write_all_sessions:
  "((\<exists>file. write_jsonl old (map session_dict (all_sessions chats)) = Inr file)
      = list_all (\<lambda>c. list_all (list_all (\<lambda>msg. utf8_encodable (author msg)
                                          \<and> utf8_encodable (text msg))) (sessions c)) chats)
   \<and> (\<forall>file. write_jsonl old (map session_dict (all_sessions chats)) = Inr file \<longrightarrow>
         file = concat (map (\<lambda>c. concat (map (\<lambda>s. json_dump (session_dict s) @ [10])
                                         (sessions c))) chats)
         \<and> count_list file 10 = sum_list (map (\<lambda>c. length (sessions c)) chats))
   \<and> (\<forall>e file. write_jsonl old (map session_dict (all_sessions chats)) = Inl (e, file) \<longrightarrow>
         e = UnicodeEncodeError
         \<and> count_list file 10 < sum_list (map (\<lambda>c. length (sessions c)) chats))"
proof (cases "list_all (list_all (\<lambda>msg. utf8_encodable (author msg) \<and> utf8_encodable (text msg)))
    (all_sessions chats)")
  case True
  then have w: "write_jsonl old (map session_dict (all_sessions chats))
      = Inr (concat (map (\<lambda>s. json_dump (session_dict s) @ [10]) (all_sessions chats)))"
    by (simp only: write_jsonl_sessions if_True)
  have "count_list (concat (map (\<lambda>s. json_dump (session_dict s) @ [10]) (all_sessions chats))) 10
      = sum_list (map (\<lambda>c. length (sessions c)) chats)"
    by (simp only: count_lines length_all_sessions)
  with True show ?thesis
    unfolding w by (simp add: encodable_all_sessions lines_all_sessions)
next
  case False
  then have w: "write_jsonl old (map session_dict (all_sessions chats))
      = Inl (UnicodeEncodeError,
             concat (map (\<lambda>s. json_dump (session_dict s) @ [10])
               (takeWhile
                  (list_all (\<lambda>msg. utf8_encodable (author msg) \<and> utf8_encodable (text msg)))
                  (all_sessions chats)))
             @ [123, 34, 116, 101, 120, 116, 34, 58, 32])"
    by (simp only: write_jsonl_sessions if_False)
  from length_takeWhile_less [OF False]
  have "count_list (concat (map (\<lambda>s. json_dump (session_dict s) @ [10])
               (takeWhile
                  (list_all (\<lambda>msg. utf8_encodable (author msg) \<and> utf8_encodable (text msg)))
                  (all_sessions chats)))
             @ [123, 34, 116, 101, 120, 116, 34, 58, 32]) 10
      < sum_list (map (\<lambda>c. length (sessions c)) chats)"
    by (simp add: count_lines length_all_sessions)
  with False show ?thesis
    unfolding w by (simp add: encodable_all_sessions)
qed

lemma transform_chat_sessions:
  "\<exists>h' combined c'.
      combine_consecutive_messages (heap_of (messages c))
          (create_sessions (heap_of (messages c)) [0..<length (messages c)] th) d
        = Inr (h', combined)
      \<and> transform_chat target th d c = Inr c'
      \<and> sessions c' = map (map h') (session_filter h' target combined)"
  using transform_chat_result [of c th d target] by force

lemma transform_chats_loop_sessions:
  "\<exists>chats'. transform_chats_loop target th d chats = Inr chats'
     \<and> length chats' = length chats
     \<and> (\<forall>i<length chats. \<exists>h' combined.
           combine_consecutive_messages (heap_of (messages (chats ! i)))
               (create_sessions (heap_of (messages (chats ! i)))
                  [0..<length (messages (chats ! i))] th) d
             = Inr (h', combined)
           \<and> sessions (chats' ! i) = map (map h') (session_filter h' target combined))"
proof -
  from transform_chats_loop_total [of target th d chats] obtain chats' where
    l: "transform_chats_loop target th d chats = Inr chats'"
    and n: "length chats' = length chats"
    and each: "\<And>i. i < length chats \<Longrightarrow> transform_chat target th d (chats ! i) = Inr (chats' ! i)"
    by blast
  have "\<exists>h' combined.
           combine_consecutive_messages (heap_of (messages (chats ! i)))
               (create_sessions (heap_of (messages (chats ! i)))
                  [0..<length (messages (chats ! i))] th) d
             = Inr (h', combined)
           \<and> sessions (chats' ! i) = map (map h') (session_filter h' target combined)"
    if "i < length chats" for i
    using transform_chat_sessions [of "chats ! i" th d target] each [OF that] by auto
  with l n show ?thesis
    by blast
qed

lemma transform_loaded_Inr:
  assumes "transform_loaded chats extracted target_name now months th d old = Inr file"
  shows "\<exists>cutoff chats'. cutoff_date now months = Inr cutoff
           \<and> transform_chats_loop (py_or target_name extracted) th d (date_filter cutoff chats)
               = Inr chats'
           \<and> write_jsonl old (map session_dict (all_sessions chats')) = Inr file"
  using assms
  by (auto simp add: transform_loaded_def split: sum.splits prod.splits)

text \<open>
  Claim C9. A session is rendered as a dict with the single key \<^verbatim>\<open>text\<close>, whose value gives
  every message in order as \<^verbatim>\<open><|im_start|>\<close>, the author, a newline, the text and
  \<^verbatim>\<open><|im_end|>\<close>, the messages joined by single newlines; its dump is
  \<^verbatim>\<open>{"text": \<close> followed by the JSON string of that value and \<^verbatim>\<open>}\<close>, and holds no newline;
  a JSON string is the escaped value between double quotes, and reading the escapes back
  gives the value. What the file held before the run does not matter.

  For every working set that enters the loop of line 91, the loop returns, and the
  sessions of every chat are then those that its SessionFilter kept. The writer returns
  exactly when no author and no text of these sessions holds a surrogate; the file is
  then, chat by chat and session by session, the dump of the session and a newline, and
  the number of its lines is the number of the surviving sessions of all chats. When the
  writer raises, it raises \<^verbatim>\<open>UnicodeEncodeError\<close> and the file has fewer lines than there are
  surviving sessions. Every run of \<^verbatim>\<open>transform_chats\<close> that returns has written one line for
  every surviving session, and once the loader has returned, the run returns exactly when
  the cutoff date is in range.
\<close>

theorem writer_one_line_per_session:
  "session_dict s
     = [(str ''text'',
         join [10] (map (\<lambda>msg. str ''<|im_start|>'' @ author msg @ [10] @ text msg
                                  @ str ''<|im_end|>'') s))]
   \<and> json_dump (session_dict s)
       = [123, 34, 116, 101, 120, 116, 34, 58, 32]
           @ json_string (join [10] (map format_message s)) @ [125]
   \<and> 10 \<notin> set (json_dump (session_dict s))
   \<and> json_string v = [34] @ concat (map json_escape v) @ [34]
   \<and> json_unescape (concat (map json_escape v)) = v
   \<and> write_jsonl old (map session_dict ss) = write_jsonl None (map session_dict ss)
   \<and> (\<exists>chats'. transform_chats_loop target th d chats = Inr chats'
         \<and> length chats' = length chats
         \<and> (\<forall>i<length chats. \<exists>h' combined.
               combine_consecutive_messages (heap_of (messages (chats ! i)))
                   (create_sessions (heap_of (messages (chats ! i)))
                      [0..<length (messages (chats ! i))] th) d
                 = Inr (h', combined)
               \<and> sessions (chats' ! i) = map (map h') (session_filter h' target combined))
         \<and> ((\<exists>file. write_jsonl old (map session_dict (all_sessions chats')) = Inr file)
              = list_all (\<lambda>c. list_all (list_all (\<lambda>msg. utf8_encodable (author msg)
                                                  \<and> utf8_encodable (text msg))) (sessions c))
                  chats')
         \<and> (\<forall>file. write_jsonl old (map session_dict (all_sessions chats')) = Inr file \<longrightarrow>
               file = concat (map (\<lambda>c. concat (map (\<lambda>s. json_dump (session_dict s) @ [10])
                                               (sessions c))) chats')
               \<and> count_list file 10 = sum_list (map (\<lambda>c. length (sessions c)) chats'))
         \<and> (\<forall>e file. write_jsonl old (map session_dict (all_sessions chats')) = Inl (e, file) \<longrightarrow>
               e = UnicodeEncodeError
               \<and> count_list file 10 < sum_list (map (\<lambda>c. length (sessions c)) chats')))
   \<and> (\<forall>file. transform_loaded chats extracted target_name now months th d old = Inr file \<longrightarrow>
         (\<exists>cutoff chats'. cutoff_date now months = Inr cutoff
            \<and> transform_chats_loop (py_or target_name extracted) th d
                  (date_filter cutoff chats) = Inr chats'
            \<and> file = concat (map (\<lambda>c. concat (map (\<lambda>s. json_dump (session_dict s) @ [10])
                                               (sessions c))) chats')
            \<and> count_list file 10 = sum_list (map (\<lambda>c. length (sessions c)) chats')))
   \<and> (\<exists>file. transform_loaded chats extracted target_name now months th d old = Inr file)
       = (\<exists>cutoff. cutoff_date now months = Inr cutoff)"
proof -
  have a: "session_dict s
     = [(str ''text'',
         join [10] (map (\<lambda>msg. str ''<|im_start|>'' @ author msg @ [10] @ text msg
                                  @ str ''<|im_end|>'') s))]"
    by (simp add: session_dict_def format_message_def [abs_def])
  have b: "json_string v = [34] @ concat (map json_escape v) @ [34]"
    by (simp add: json_string_def)
  have c: "write_jsonl old (map session_dict ss) = write_jsonl None (map session_dict ss)"
    by (simp add: write_jsonl_def open_w_def)
  from transform_chats_loop_sessions [of target th d chats] obtain chats' where
    l: "transform_chats_loop target th d chats = Inr chats'"
       "length chats' = length chats"
       "\<forall>i<length chats. \<exists>h' combined.
               combine_consecutive_messages (heap_of (messages (chats ! i)))
                   (create_sessions (heap_of (messages (chats ! i)))
                      [0..<length (messages (chats ! i))] th) d
                 = Inr (h', combined)
               \<and> sessions (chats' ! i) = map (map h') (session_filter h' target combined)"
    by blast
  note w = write_all_sessions [of old chats']
  have stage: "\<exists>chats'. transform_chats_loop target th d chats = Inr chats'
         \<and> length chats' = length chats
         \<and> (\<forall>i<length chats. \<exists>h' combined.
               combine_consecutive_messages (heap_of (messages (chats ! i)))
                   (create_sessions (heap_of (messages (chats ! i)))
                      [0..<length (messages (chats ! i))] th) d
                 = Inr (h', combined)
               \<and> sessions (chats' ! i) = map (map h') (session_filter h' target combined))
         \<and> ((\<exists>file. write_jsonl old (map session_dict (all_sessions chats')) = Inr file)
              = list_all (\<lambda>c. list_all (list_all (\<lambda>msg. utf8_encodable (author msg)
                                                  \<and> utf8_encodable (text msg))) (sessions c))
                  chats')
         \<and> (\<forall>file. write_jsonl old (map session_dict (all_sessions chats')) = Inr file \<longrightarrow>
               file = concat (map (\<lambda>c. concat (map (\<lambda>s. json_dump (session_dict s) @ [10])
                                               (sessions c))) chats')
               \<and> count_list file 10 = sum_list (map (\<lambda>c. length (sessions c)) chats'))
         \<and> (\<forall>e file. write_jsonl old (map session_dict (all_sessions chats')) = Inl (e, file) \<longrightarrow>
               e = UnicodeEncodeError
               \<and> count_list file 10 < sum_list (map (\<lambda>c. length (sessions c)) chats'))"
    by (rule exI [of _ chats']) (intro conjI l w [THEN conjunct1] w [THEN conjunct2, THEN conjunct1]
        w [THEN conjunct2, THEN conjunct2])
  have run: "\<exists>cutoff chats'. cutoff_date now months = Inr cutoff
            \<and> transform_chats_loop (py_or target_name extracted) th d
                  (date_filter cutoff chats) = Inr chats'
            \<and> out = concat (map (\<lambda>c. concat (map (\<lambda>s. json_dump (session_dict s) @ [10])
                                               (sessions c))) chats')
            \<and> count_list out 10 = sum_list (map (\<lambda>c. length (sessions c)) chats')"
    if "transform_loaded chats extracted target_name now months th d old = Inr out" for out
  proof -
    from transform_loaded_Inr [OF that] obtain cutoff chats'' where
      r: "cutoff_date now months = Inr cutoff"
         "transform_chats_loop (py_or target_name extracted) th d (date_filter cutoff chats)
            = Inr chats''"
      and f: "write_jsonl old (map session_dict (all_sessions chats'')) = Inr out"
      by blast
    from write_all_sessions [of old chats''] f have
      "out = concat (map (\<lambda>c. concat (map (\<lambda>s. json_dump (session_dict s) @ [10])
                                               (sessions c))) chats'')
       \<and> count_list out 10 = sum_list (map (\<lambda>c. length (sessions c)) chats'')"
      by blast
    with r show ?thesis
      by blast
  qed
  have tot: "(\<exists>file. transform_loaded chats extracted target_name now months th d old = Inr file)
       = (\<exists>cutoff. cutoff_date now months = Inr cutoff)"
    using transform_loaded_Inr [of chats extracted target_name now months th d old]
      transform_loaded_empty [of now months _ chats extracted target_name th d old]
    by blast
  from a b c stage run tot json_dump_session_dict [of s]
    json_dump_session_dict_no_newline [of s] json_unescape_escapes [of v]
  show ?thesis
    by (intro conjI allI impI)
qed

lemma example_line_eq: "json_dump (session_dict example_session) = example_line"
  by (simp add: json_dump_session_dict json_string_def json_escape_def str_def
      format_message_def example_session_def example_line_def)

lemma heap_of_example_chat: "heap_of (messages example_chat) = example_heap"
  by (simp add: example_chat_def example_heap_def)

lemma example_chat_sessions:
  "create_sessions example_heap [0..<length (messages example_chat)] 10 = [[0, 1, 2]]"
proof -
  have "[0..<length (messages example_chat)] = [0, 1, 2]"
    by (simp add: example_chat_def example_messages_def upt_rec)
  moreover have "create_sessions example_heap [0, 1, 2] 10 = [[0, 1, 2]]"
    by (simp add: create_sessions_def gap_below_iff example_heap_simps)
  ultimately show ?thesis
    by (simp only:)
qed

lemma example_session_eq:
  "map (map (fst merged_once)) (session_filter (fst merged_once) (Some (str ''Alice'')) [[0, 2]])
     = [example_session]"
  by (simp add: session_filter_def has_target_def fst_merged_once example_session_def
      default_delimiter_def str_def)

lemma example_session_encodable:
  "list_all (\<lambda>msg. utf8_encodable (author msg) \<and> utf8_encodable (text msg)) example_session"
  by (simp add: example_session_def utf8_encodable_def str_def)

text \<open>
  The example chat as the working set, with the target Alice: one session survives and the
  file is the one line of that session. A whole run of \<^verbatim>\<open>src/prepare_data.py\<close> on the example
  chat returns and writes no line, since its DateFilter leaves no chat.
\<close>

theorem writer_one_line_per_session_witness:
  "(\<exists>chats'. transform_chats_loop (Some (str ''Alice'')) 10 default_delimiter [example_chat]
                = Inr chats'
       \<and> map sessions chats' = [[example_session]]
       \<and> write_jsonl (Some (str ''old'')) (map session_dict (all_sessions chats'))
           = Inr (example_line @ [10])
       \<and> count_list (example_line @ [10]) 10 = sum_list (map (\<lambda>c. length (sessions c)) chats'))
   \<and> list_all (\<lambda>msg. utf8_encodable (author msg) \<and> utf8_encodable (text msg)) example_session
   \<and> count_list (example_line @ [10]) 10 = 1
   \<and> transform_loaded [example_chat] None (Some (str ''Alice'')) 63900000000000000 60 10
         default_delimiter (Some (str ''old'')) = Inr []
   \<and> (\<exists>cutoff chats'. cutoff_date 63900000000000000 60 = Inr cutoff
          \<and> transform_chats_loop (py_or (Some (str ''Alice'')) None) 10 default_delimiter
                (date_filter cutoff [example_chat]) = Inr chats'
          \<and> count_list [] (10 :: nat) = sum_list (map (\<lambda>c. length (sessions c)) chats'))"
proof -
  note t = writer_one_line_per_session [of example_session "[]" "Some (str ''old'')"
      "[example_session]" "Some (str ''Alice'')" 10 default_delimiter "[example_chat]"
      None "Some (str ''Alice'')" 63900000000000000 60]
  from t obtain chats' where
    l: "transform_chats_loop (Some (str ''Alice'')) 10 default_delimiter [example_chat]
          = Inr chats'"
    and n: "length chats' = length [example_chat]"
    and each: "\<forall>i<length [example_chat]. \<exists>h' combined.
        combine_consecutive_messages (heap_of (messages ([example_chat] ! i)))
            (create_sessions (heap_of (messages ([example_chat] ! i)))
               [0..<length (messages ([example_chat] ! i))] 10) default_delimiter
          = Inr (h', combined)
        \<and> sessions (chats' ! i)
            = map (map h') (session_filter h' (Some (str ''Alice'')) combined)"
    and ok: "(\<exists>file. write_jsonl (Some (str ''old'')) (map session_dict (all_sessions chats'))
                = Inr file)
        = list_all (\<lambda>c. list_all (list_all (\<lambda>msg. utf8_encodable (author msg)
                                            \<and> utf8_encodable (text msg))) (sessions c)) chats'"
    and lines: "\<forall>file. write_jsonl (Some (str ''old'')) (map session_dict (all_sessions chats'))
          = Inr file \<longrightarrow>
        file = concat (map (\<lambda>c. concat (map (\<lambda>s. json_dump (session_dict s) @ [10])
                                        (sessions c))) chats')
        \<and> count_list file 10 = sum_list (map (\<lambda>c. length (sessions c)) chats')"
    by blast
  from n obtain c' where c': "chats' = [c']"
    by (cases chats') auto
  from each [rule_format, of 0] obtain h' combined where
    m: "combine_consecutive_messages (heap_of (messages example_chat))
          (create_sessions (heap_of (messages example_chat))
             [0..<length (messages example_chat)] 10) default_delimiter
        = Inr (h', combined)"
    and s: "sessions c' = map (map h') (session_filter h' (Some (str ''Alice'')) combined)"
    by (auto simp add: c')
  note m [unfolded heap_of_example_chat example_chat_sessions merged_once_eq]
  then have mo: "merged_once = (h', combined)"
    by simp
  have "h' = fst merged_once"
    by (simp add: mo)
  moreover from snd_merged_once have "combined = [[0, 2]]"
    by (simp add: mo)
  ultimately have "h' = fst merged_once" "combined = [[0, 2]]"
    by blast+
  with s have sc: "sessions c' = [example_session]"
    by (simp only: example_session_eq)
  from ok have "\<exists>file. write_jsonl (Some (str ''old'')) (map session_dict (all_sessions chats'))
      = Inr file"
    by (simp add: c' sc example_session_encodable)
  then obtain out where
    f: "write_jsonl (Some (str ''old'')) (map session_dict (all_sessions chats')) = Inr out"
    by blast
  note lf = lines [rule_format, OF f]
  from lf have fl: "out = example_line @ [10]"
    by (simp add: c' sc example_line_eq)
  from lf have cnt: "count_list out 10 = sum_list (map (\<lambda>c. length (sessions c)) chats')"
    by (rule conjunct2)
  have one: "count_list (example_line @ [10]) 10 = 1"
    using cnt by (simp add: fl c' sc)
  have "transform_chats_loop (Some (str ''Alice'')) 10 default_delimiter [example_chat]
                = Inr chats'
       \<and> map sessions chats' = [[example_session]]
       \<and> write_jsonl (Some (str ''old'')) (map session_dict (all_sessions chats'))
           = Inr (example_line @ [10])
       \<and> count_list (example_line @ [10]) 10 = sum_list (map (\<lambda>c. length (sessions c)) chats')"
    using l f cnt by (simp add: fl c' sc)
  then have "\<exists>chats'. transform_chats_loop (Some (str ''Alice'')) 10 default_delimiter
                 [example_chat] = Inr chats'
       \<and> map sessions chats' = [[example_session]]
       \<and> write_jsonl (Some (str ''old'')) (map session_dict (all_sessions chats'))
           = Inr (example_line @ [10])
       \<and> count_list (example_line @ [10]) 10 = sum_list (map (\<lambda>c. length (sessions c)) chats')"
    by (rule exI)
  moreover have run: "transform_loaded [example_chat] None (Some (str ''Alice''))
      63900000000000000 60 10 default_delimiter (Some (str ''old'')) = Inr []"
    using cutoff_date_example by (rule transform_loaded_empty)
  moreover from t run have "\<exists>cutoff chats'. cutoff_date 63900000000000000 60 = Inr cutoff
          \<and> transform_chats_loop (py_or (Some (str ''Alice'')) None) 10 default_delimiter
                (date_filter cutoff [example_chat]) = Inr chats'
          \<and> count_list [] (10 :: nat) = sum_list (map (\<lambda>c. length (sessions c)) chats')"
    by blast
  ultimately show ?thesis
    using example_session_encodable one by (intro conjI)
qed

text \<open>
  A session with a lone surrogate between two sessions without: the writer raises after the
  line of the first session and the chunks \<^verbatim>\<open>{\<close>, \<^verbatim>\<open>"text"\<close> and \<^verbatim>\<open>: \<close> of the second.
\<close>

lemma write_jsonl_surrogate:
  "write_jsonl old (map session_dict [example_session, surrogate_session, example_session])
     = Inl (UnicodeEncodeError, example_line @ [10] @ [123, 34, 116, 101, 120, 116, 34, 58, 32])"
proof -
  have "\<not> list_all (\<lambda>msg. utf8_encodable (author msg) \<and> utf8_encodable (text msg))
      surrogate_session"
    by (simp add: surrogate_session_def utf8_encodable_def)
  with example_session_encodable show ?thesis
    unfolding write_jsonl_sessions by (simp add: example_line_eq)
qed

section \<open>Claim on \<^verbatim>\<open>load_chats\<close>\<close>

lemma and_then_Inr:
  "and_then m f = Inr y \<Longrightarrow> \<exists>x. m = Inr x \<and> f x = Inr y"
  by (cases m) simp_all

lemma next_from_Inr:
  "next_from user msgs = Inr msg \<Longrightarrow>
     msg \<in> set msgs \<and> getitem msg (str ''from_id'') = Inr (JStr user)"
proof (induction msgs)
  case Nil
  then show ?case by simp
next
  case (Cons m rest)
  from Cons.prems obtain from_id where
    f: "getitem m (str ''from_id'') = Inr from_id"
    and r: "(if from_id = JStr user then Inr m else next_from user rest) = Inr msg"
    by (auto dest: and_then_Inr)
  show ?case
  proof (cases "from_id = JStr user")
    case True
    with f r show ?thesis by simp
  next
    case False
    with r have "next_from user rest = Inr msg" by simp
    with Cons.IH show ?thesis by simp
  qed
qed

lemma saved_messages_Inr:
  assumes "saved_messages lib c = Inr (n, nm)"
  shows "\<exists>idv msgs ms m.
           getitem c (str ''id'') = Inr idv \<and> py_int lib idv = Inr n
           \<and> getitem c (str ''messages'') = Inr msgs \<and> iterate msgs = Inr ms
           \<and> m \<in> set ms
           \<and> getitem m (str ''from_id'') = Inr (JStr (str ''user'' @ str_int n))"
proof -
  from assms obtain idv where 1: "getitem c (str ''id'') = Inr idv"
    and a: "and_then (py_int lib idv) (\<lambda>target_id.
     and_then (getitem c (str ''messages'')) (\<lambda>msgs.
     and_then (iterate msgs) (\<lambda>msgs.
     and_then (next_from (str ''user'' @ str_int target_id) msgs) (\<lambda>msg.
     and_then (getitem msg (str ''from'')) (\<lambda>from.
       Inr (target_id, py_str lib from)))))) = Inr (n, nm)"
    unfolding saved_messages_def by (blast dest: and_then_Inr)
  from a obtain k where 2: "py_int lib idv = Inr k"
    and b: "and_then (getitem c (str ''messages'')) (\<lambda>msgs.
     and_then (iterate msgs) (\<lambda>msgs.
     and_then (next_from (str ''user'' @ str_int k) msgs) (\<lambda>msg.
     and_then (getitem msg (str ''from'')) (\<lambda>from.
       Inr (k, py_str lib from))))) = Inr (n, nm)"
    by (blast dest: and_then_Inr)
  from b obtain msgs where 3: "getitem c (str ''messages'') = Inr msgs"
    and c: "and_then (iterate msgs) (\<lambda>msgs.
     and_then (next_from (str ''user'' @ str_int k) msgs) (\<lambda>msg.
     and_then (getitem msg (str ''from'')) (\<lambda>from.
       Inr (k, py_str lib from)))) = Inr (n, nm)"
    by (blast dest: and_then_Inr)
  from c obtain ms where 4: "iterate msgs = Inr ms"
    and d: "and_then (next_from (str ''user'' @ str_int k) ms) (\<lambda>msg.
     and_then (getitem msg (str ''from'')) (\<lambda>from.
       Inr (k, py_str lib from))) = Inr (n, nm)"
    by (blast dest: and_then_Inr)
  from d obtain m where 5: "next_from (str ''user'' @ str_int k) ms = Inr m"
    and e: "and_then (getitem m (str ''from'')) (\<lambda>from. Inr (k, py_str lib from)) = Inr (n, nm)"
    by (blast dest: and_then_Inr)
  from e have "k = n"
    by (auto dest: and_then_Inr)
  with 1 2 3 4 next_from_Inr [OF 5] show ?thesis
    by blast
qed

lemma load_chats_loop_fails:
  "c \<in> set entries \<Longrightarrow> (\<And>st. \<exists>e. load_chat lib st c = Inl e) \<Longrightarrow>
     \<exists>e. load_chats_loop lib st entries = Inl e"
proof (induction entries arbitrary: st)
  case Nil
  then show ?case by simp
next
  case (Cons c' rest)
  show ?case
  proof (cases "load_chat lib st c'")
    case (Inl e)
    then show ?thesis by simp
  next
    case (Inr st')
    with Cons.prems(2) [of st] have "c' \<noteq> c" by auto
    with Cons.prems(1) have "c \<in> set rest" by simp
    from Cons.IH [OF this Cons.prems(2), of st'] Inr show ?thesis by simp
  qed
qed

text \<open>
  The same holds for every export: when an entry without \<^verbatim>\<open>name\<close> holds no message whose
  \<^verbatim>\<open>from_id\<close> is \<^verbatim>\<open>user\<close> followed by its id, \<^verbatim>\<open>load_chats\<close> raises.
\<close>

lemma load_chats_fails_without_sender:
  assumes "getitem export (str ''chats'') = Inr cs"
    and "getitem cs (str ''list'') = Inr l"
    and "iterate l = Inr entries"
    and "c \<in> set entries"
    and "contains (str ''name'') c = Inr False"
    and "getitem c (str ''id'') = Inr idv"
    and "py_int lib idv = Inr n"
    and "getitem c (str ''messages'') = Inr msgs"
    and "iterate msgs = Inr ms"
    and "\<forall>m\<in>set ms. getitem m (str ''from_id'') \<noteq> Inr (JStr (str ''user'' @ str_int n))"
  shows "\<exists>e. load_chats lib export = Inl e"
proof -
  have no: "saved_messages lib c \<noteq> Inr (k, nm)" for k nm
  proof
    assume "saved_messages lib c = Inr (k, nm)"
    from saved_messages_Inr [OF this] assms(6-10) show False
      by auto
  qed
  have "\<exists>e. load_chat lib st c = Inl e" for st
  proof (cases "saved_messages lib c")
    case (Inl e)
    with assms(5) show ?thesis
      by (simp add: load_chat_def split: prod.splits)
  next
    case (Inr r)
    with no [of "fst r" "snd r"] show ?thesis by simp
  qed
  from load_chats_loop_fails [OF assms(4) this, of "([], None, None)"]
  obtain e where "load_chats_loop lib ([], None, None) entries = Inl e"
    by blast
  with assms(1-3) show ?thesis
    by (simp add: load_chats_def)
qed

text \<open>
  Claim C4, at a failing input. The self-record of the example export has the id 1 and no
  message sent by \<^verbatim>\<open>user1\<close>: \<^verbatim>\<open>load_chats\<close> does not return with the target unset and a
  warning, it raises \<^verbatim>\<open>StopIteration\<close>, whatever the library functions do, and so does
  \<^verbatim>\<open>transform_chats\<close>: the run does not continue, and the output file is left as it was.
\<close>

theorem load_chats_raises_StopIteration:
  "load_chats lib example_export = Inl StopIteration
   \<and> transform_chats lib example_export old target_name now last_x_months threshold delimiter
       = Inl (StopIteration, old)"
proof -
  have "load_chats lib example_export = Inl StopIteration"
    by (simp add: load_chats_def example_export_def load_chat_def saved_messages_def
      str_int_def str_def)
  then show ?thesis
    by (simp add: transform_chats_def)
qed

text \<open>
  The warning of line 62 is reached when the export has no self-record at all.
\<close>

lemma load_chats_warns_without_self_record:
  "load_chats lib (JDict [(str ''chats'', JDict [(str ''list'', JList [])])])
     = Inr ([], (None, None), True)"
  by (simp add: load_chats_def str_def)

end
